theory Spec2Isabelle
  imports Main "HOL-Library.Log_Nat"
begin

section \<open>JavaScript numbers\<close>

text \<open>
  A JavaScript number is an IEEE-754 binary64 value.  A finite value is the rational number
  it denotes; the two zeros are identified, since no operation used below (addition,
  subtraction, multiplication, \<open>Math.abs\<close>, \<open>Math.round\<close>, \<open>Math.min\<close>, \<open>\<le>\<close>,
  \<open><\<close>, \<open>Number.isNaN\<close>) tells them apart, and the only division has a divisor of
  at least 1.
\<close>

datatype jsnumber = NaN | PosInfinity | NegInfinity | Num rat

text \<open>\<open>expo q\<close> is the binary exponent \<open>\<lfloor>log\<^sub>2 \<bar>q\<bar>\<rfloor>\<close> of a non-zero rational.\<close>

definition expo :: "rat \<Rightarrow> int" where
  "expo q = (let (n, d) = quotient_of \<bar>q\<bar>; e = bitlen n - bitlen d
             in if \<bar>q\<bar> < 2 powi e then e - 1 else e)"

definition round_ties_even :: "rat \<Rightarrow> int" where
  "round_ties_even x = (let f = \<lfloor>x\<rfloor>; d = x - of_int f
      in if d < 1/2 then f else if 1/2 < d then f + 1 else if even f then f else f + 1)"

text \<open>
  Rounding of an exact result to binary64, round-to-nearest, ties to even: 53 significant
  bits, least exponent \<open>-1022\<close> (below it the spacing stays \<open>2\<^sup>-\<^sup>1\<^sup>0\<^sup>7\<^sup>4\<close>), overflow to an
  infinity from \<open>2\<^sup>1\<^sup>0\<^sup>2\<^sup>4\<close> on.
\<close>

definition round_double :: "rat \<Rightarrow> jsnumber" where
  "round_double q = (if q = 0 then Num 0 else
     let e = max (expo q) (- 1022);
         u = 2 powi (e - 52);
         r = of_int (round_ties_even (q / u)) * u
     in if 2 powi 1024 \<le> \<bar>r\<bar> then (if 0 < q then PosInfinity else NegInfinity) else Num r)"

text \<open>A rational is a binary64 value when rounding leaves it as it is.\<close>

definition is_double :: "rat \<Rightarrow> bool" where
  "is_double q \<longleftrightarrow> round_double q = Num q"

fun isNaN :: "jsnumber \<Rightarrow> bool" where
  "isNaN NaN = True"
| "isNaN _ = False"

fun isFinite :: "jsnumber \<Rightarrow> bool" where
  "isFinite (Num a) = True"
| "isFinite _ = False"

fun num_add :: "jsnumber \<Rightarrow> jsnumber \<Rightarrow> jsnumber" where
  "num_add (Num a) (Num b) = round_double (a + b)"
| "num_add NaN _ = NaN"
| "num_add _ NaN = NaN"
| "num_add PosInfinity NegInfinity = NaN"
| "num_add NegInfinity PosInfinity = NaN"
| "num_add PosInfinity _ = PosInfinity"
| "num_add NegInfinity _ = NegInfinity"
| "num_add (Num a) PosInfinity = PosInfinity"
| "num_add (Num a) NegInfinity = NegInfinity"

fun num_sub :: "jsnumber \<Rightarrow> jsnumber \<Rightarrow> jsnumber" where
  "num_sub (Num a) (Num b) = round_double (a - b)"
| "num_sub NaN _ = NaN"
| "num_sub _ NaN = NaN"
| "num_sub PosInfinity PosInfinity = NaN"
| "num_sub NegInfinity NegInfinity = NaN"
| "num_sub PosInfinity _ = PosInfinity"
| "num_sub NegInfinity _ = NegInfinity"
| "num_sub (Num a) PosInfinity = NegInfinity"
| "num_sub (Num a) NegInfinity = PosInfinity"

text \<open>The sign of a number that is not NaN: \<open>-1\<close>, \<open>0\<close> or \<open>1\<close>.\<close>

fun num_sgn :: "jsnumber \<Rightarrow> int" where
  "num_sgn (Num a) = (if a < 0 then - 1 else if a = 0 then 0 else 1)"
| "num_sgn PosInfinity = 1"
| "num_sgn NegInfinity = - 1"
| "num_sgn NaN = 0"

definition signed_infinity :: "int \<Rightarrow> jsnumber" where
  "signed_infinity s = (if s < 0 then NegInfinity else PosInfinity)"

fun num_mul :: "jsnumber \<Rightarrow> jsnumber \<Rightarrow> jsnumber" where
  "num_mul (Num a) (Num b) = round_double (a * b)"
| "num_mul NaN _ = NaN"
| "num_mul _ NaN = NaN"
| "num_mul x y = (if num_sgn x = 0 \<or> num_sgn y = 0 then NaN
                  else signed_infinity (num_sgn x * num_sgn y))"

text \<open>Division; a zero divisor is taken to be \<open>+0\<close>.\<close>

fun num_div :: "jsnumber \<Rightarrow> jsnumber \<Rightarrow> jsnumber" where
  "num_div (Num a) (Num b) =
     (if b = 0 then (if a = 0 then NaN else signed_infinity (num_sgn (Num a)))
      else round_double (a / b))"
| "num_div NaN _ = NaN"
| "num_div _ NaN = NaN"
| "num_div (Num a) _ = Num 0"
| "num_div x (Num b) = signed_infinity (num_sgn x * (if b < 0 then - 1 else 1))"
| "num_div _ _ = NaN"

fun num_le :: "jsnumber \<Rightarrow> jsnumber \<Rightarrow> bool" where
  "num_le NaN _ = False"
| "num_le _ NaN = False"
| "num_le (Num a) (Num b) = (a \<le> b)"
| "num_le NegInfinity _ = True"
| "num_le _ PosInfinity = True"
| "num_le _ _ = False"

fun num_lt :: "jsnumber \<Rightarrow> jsnumber \<Rightarrow> bool" where
  "num_lt NaN _ = False"
| "num_lt _ NaN = False"
| "num_lt (Num a) (Num b) = (a < b)"
| "num_lt PosInfinity _ = False"
| "num_lt _ NegInfinity = False"
| "num_lt _ _ = True"

fun Math_abs :: "jsnumber \<Rightarrow> jsnumber" where
  "Math_abs (Num a) = Num \<bar>a\<bar>"
| "Math_abs NaN = NaN"
| "Math_abs _ = PosInfinity"

text \<open>\<open>Math.round\<close>: the nearest integer, a tie going up.\<close>

fun Math_round :: "jsnumber \<Rightarrow> jsnumber" where
  "Math_round (Num a) = Num (of_int (round a))"
| "Math_round x = x"

fun Math_min :: "jsnumber \<Rightarrow> jsnumber \<Rightarrow> jsnumber" where
  "Math_min NaN _ = NaN"
| "Math_min _ NaN = NaN"
| "Math_min x y = (if num_le x y then x else y)"

text \<open>The number of elements of an array or a set, as a JavaScript number.\<close>

definition number_of_nat :: "nat \<Rightarrow> jsnumber" where
  "number_of_nat n = round_double (of_nat n)"

section \<open>JavaScript strings\<close>

text \<open>
  A string is a list of UTF-16 code units; the type \<open>char\<close> covers the code units below 256.
  Of these, \<open>trim\<close> and \<open>Number\<close> strip the white space and line terminators
  U+0009 to U+000D, U+0020 and U+00A0, and \<open>toLowerCase\<close> changes \<open>A\<close> to \<open>Z\<close> and
  U+00C0 to U+00DE except U+00D7.
\<close>

definition is_white_space :: "char \<Rightarrow> bool" where
  "is_white_space c \<longleftrightarrow> (let n = (of_char c :: int) in (9 \<le> n \<and> n \<le> 13) \<or> n = 32 \<or> n = 160)"

definition trim :: "string \<Rightarrow> string" where
  "trim s = rev (dropWhile is_white_space (rev (dropWhile is_white_space s)))"

definition lower_char :: "char \<Rightarrow> char" where
  "lower_char c = (let n = (of_char c :: int)
     in if (65 \<le> n \<and> n \<le> 90) \<or> (192 \<le> n \<and> n \<le> 222 \<and> n \<noteq> 215) then char_of (n + 32) else c)"

definition toLowerCase :: "string \<Rightarrow> string" where
  "toLowerCase s = map lower_char s"

text \<open>
  The comparison in the words of the specification, "compare case-insensitively as
  strings": the two strings have the same length and agree position by position but for
  the case of a letter.  Among the code units below 256 the upper-case letters are \<open>A\<close> to
  \<open>Z\<close> and U+00C0 to U+00DE except U+00D7, each 32 below its lower-case form.
\<close>

definition is_upper_case :: "char \<Rightarrow> bool" where
  "is_upper_case c \<longleftrightarrow> (let n = (of_char c :: int)
     in (65 \<le> n \<and> n \<le> 90) \<or> (192 \<le> n \<and> n \<le> 222 \<and> n \<noteq> 215))"

definition same_letter :: "char \<Rightarrow> char \<Rightarrow> bool" where
  "same_letter c d \<longleftrightarrow>
     c = d \<or> (is_upper_case c \<and> (of_char d :: int) = of_char c + 32)
           \<or> (is_upper_case d \<and> (of_char c :: int) = of_char d + 32)"

definition equal_ignoring_case :: "string \<Rightarrow> string \<Rightarrow> bool" where
  "equal_ignoring_case s t \<longleftrightarrow> list_all2 same_letter s t"

subsection \<open>\<open>Number(string)\<close>\<close>

text \<open>
  The conversion of a string to a number: white space is stripped; the empty string is 0;
  \<open>0x\<close>, \<open>0o\<close> and \<open>0b\<close> introduce an unsigned integer in base 16, 8 or 2; otherwise an
  optional sign is followed by \<open>Infinity\<close> or by a decimal literal (digits, an optional
  fraction, an optional exponent, with a digit before or after the point); anything else
  is NaN.  The value is the literal's exact value rounded to binary64.
\<close>

definition digit_of :: "char \<Rightarrow> int option" where
  "digit_of c = (let n = (of_char c :: int)
     in if 48 \<le> n \<and> n \<le> 57 then Some (n - 48)
        else if 97 \<le> n \<and> n \<le> 102 then Some (n - 87)
        else if 65 \<le> n \<and> n \<le> 70 then Some (n - 55)
        else None)"

definition is_digit :: "int \<Rightarrow> char \<Rightarrow> bool" where
  "is_digit base c = (case digit_of c of None \<Rightarrow> False | Some v \<Rightarrow> v < base)"

definition digits_value :: "int \<Rightarrow> string \<Rightarrow> int" where
  "digits_value base ds =
     foldl (\<lambda>a c. base * a + (case digit_of c of None \<Rightarrow> 0 | Some v \<Rightarrow> v)) 0 ds"

definition parse_digits :: "int \<Rightarrow> string \<Rightarrow> int option" where
  "parse_digits base ds =
     (if ds \<noteq> [] \<and> list_all (is_digit base) ds then Some (digits_value base ds) else None)"

definition parse_non_decimal :: "string \<Rightarrow> int option" where
  "parse_non_decimal s = (case s of
       z # p # ds \<Rightarrow>
         if z \<noteq> CHR ''0'' then None
         else if p = CHR ''x'' \<or> p = CHR ''X'' then parse_digits 16 ds
         else if p = CHR ''o'' \<or> p = CHR ''O'' then parse_digits 8 ds
         else if p = CHR ''b'' \<or> p = CHR ''B'' then parse_digits 2 ds
         else None
     | _ \<Rightarrow> None)"

definition split_sign :: "string \<Rightarrow> bool \<times> string" where
  "split_sign s = (case s of
       [] \<Rightarrow> (False, [])
     | c # r \<Rightarrow> if c = CHR ''-'' then (True, r) else if c = CHR ''+'' then (False, r) else (False, s))"

definition parse_exponent :: "string \<Rightarrow> int option" where
  "parse_exponent s = (case s of
       [] \<Rightarrow> Some 0
     | c # r \<Rightarrow>
         if c = CHR ''e'' \<or> c = CHR ''E'' then
           (let (neg, ds) = split_sign r
            in case parse_digits 10 ds of
                 None \<Rightarrow> None
               | Some v \<Rightarrow> Some (if neg then - v else v))
         else None)"

definition split_fraction :: "string \<Rightarrow> string \<times> string" where
  "split_fraction r = (case r of
       [] \<Rightarrow> ([], [])
     | c # t \<Rightarrow> if c = CHR ''.''
                then (takeWhile (is_digit 10) t, dropWhile (is_digit 10) t)
                else ([], r))"

definition parse_unsigned_decimal :: "string \<Rightarrow> rat option" where
  "parse_unsigned_decimal s =
     (let ip = takeWhile (is_digit 10) s;
          (fp, r2) = split_fraction (dropWhile (is_digit 10) s)
      in if ip = [] \<and> fp = [] then None
         else case parse_exponent r2 of
                None \<Rightarrow> None
              | Some e \<Rightarrow> Some (of_int (digits_value 10 (ip @ fp)) * 10 powi (e - int (length fp))))"

definition Number :: "string \<Rightarrow> jsnumber" where
  "Number str =
     (let s = trim str
      in if s = [] then Num 0
         else case parse_non_decimal s of
                Some n \<Rightarrow> round_double (of_int n)
              | None \<Rightarrow>
                  (let (neg, u) = split_sign s
                   in if u = ''Infinity'' then (if neg then NegInfinity else PosInfinity)
                      else case parse_unsigned_decimal u of
                             None \<Rightarrow> NaN
                           | Some q \<Rightarrow> round_double (if neg then - q else q)))"

section \<open>The answer evaluator (utils)\<close>

text \<open>
  \<^verbatim>\<open>
  export function isCorrect(userInput: string, answer: string) {
    const a = String(userInput).trim();
    const b = String(answer).trim();
    const na = Number(a);
    const nb = Number(b);
    if (!Number.isNaN(na) && !Number.isNaN(nb)) {
      return Math.abs(na - nb) <= 1e-6;
    }
    return a.toLowerCase() === b.toLowerCase();
  }
  \<close>
\<close>

definition isCorrect :: "string \<Rightarrow> string \<Rightarrow> bool" where
  "isCorrect userInput answer =
     (let a = trim userInput;
          b = trim answer;
          na = Number a;
          nb = Number b
      in if \<not> isNaN na \<and> \<not> isNaN nb
         then num_le (Math_abs (num_sub na nb)) (round_double (1 / 1000000))
         else toLowerCase a = toLowerCase b)"

section \<open>Objects used as dictionaries\<close>

text \<open>
  \<open>sceneMap\<close> and \<open>puzzleRegistry\<close> are ordinary objects, so \<open>obj[key]\<close> reads an own
  property if there is one and otherwise a property inherited from \<open>Object.prototype\<close>.
  The inherited members are functions (and, for \<open>__proto__\<close>, the prototype object), all
  of them truthy.
\<close>

datatype 'a property = Own 'a | Inherited | Undefined

definition object_prototype_keys :: "string list" where
  "object_prototype_keys =
     [''constructor'', ''hasOwnProperty'', ''isPrototypeOf'', ''propertyIsEnumerable'',
      ''toLocaleString'', ''toString'', ''valueOf'', ''__proto__'',
      ''__defineGetter__'', ''__defineSetter__'', ''__lookupGetter__'', ''__lookupSetter__'']"

definition get_property :: "(string \<rightharpoonup> 'a) \<Rightarrow> string \<Rightarrow> 'a property" where
  "get_property obj k = (case obj k of
       Some v \<Rightarrow> Own v
     | None \<Rightarrow> if k \<in> set object_prototype_keys then Inherited else Undefined)"

text \<open>Truthiness of a property whose own values are objects.\<close>

fun truthy :: "'a property \<Rightarrow> bool" where
  "truthy Undefined = False"
| "truthy _ = True"

text \<open>\<open>Object.fromEntries\<close> defines the entries' properties in order, a later one replacing
  an earlier one of the same key.\<close>

definition fromEntries :: "(string \<times> 'a) list \<Rightarrow> (string \<rightharpoonup> 'a)" where
  "fromEntries es = fold (\<lambda>(k, v) obj. obj(k \<mapsto> v)) es Map.empty"

text \<open>\<open>Array.from(new Set(xs))\<close>: the elements of \<open>xs\<close> in the order of their first
  occurrence.\<close>

definition Set_add :: "'a \<Rightarrow> 'a list \<Rightarrow> 'a list" where
  "Set_add x s = (if x \<in> set s then s else s @ [x])"

definition new_Set :: "'a list \<Rightarrow> 'a list" where
  "new_Set xs = fold Set_add xs []"

text \<open>The operator \<open>??\<close>.\<close>

fun nullish :: "'a option \<Rightarrow> 'a \<Rightarrow> 'a" where
  "nullish (Some v) d = v"
| "nullish None d = d"

section \<open>Chapter data and game state (types)\<close>

record Choice =
  label :: string
  "next" :: string

record Puzzle =
  ptype :: string
  concept :: string
  question :: string
  answer :: string
  success_next :: string
  fail_next :: string
  animation :: "string option"
  explanation :: "string option"

record Scene =
  scene_id :: string
  title :: string
  scene_text :: string
  choices :: "Choice list option"
  puzzle :: "Puzzle option"
  flags_set :: "string list option"

record GameState =
  current :: string
  flags :: "string list"
  history :: "string list"
  complete :: bool

text \<open>The argument of \<open>onSolve\<close>: \<open>{ ok, next, flags }\<close>.\<close>

record PuzzleResult =
  res_ok :: bool
  res_next :: string
  res_flags :: "string list"

section \<open>The game component (SciFiTextGame)\<close>

text \<open>\<^verbatim>\<open>const sceneMap = Object.fromEntries(chapter.scenes.map(s => [s.id, s]));\<close>\<close>

definition sceneMap :: "Scene list \<Rightarrow> (string \<rightharpoonup> Scene)" where
  "sceneMap scenes = fromEntries (map (\<lambda>s. (scene_id s, s)) scenes)"

text \<open>
  \<^verbatim>\<open>
  const goTo = (id: string) => {
    if (id === "chapter_end") {
      setState((s) => ({ ...s, current: id, complete: true, history: [...s.history, id] }));
      return;
    }
    if (!sceneMap[id]) return;
    setState((s) => ({ ...s, current: id, history: [...s.history, id] }));
  };
  \<close>
  The state update is the function from the old state to the new one.
\<close>

definition goTo :: "Scene list \<Rightarrow> string \<Rightarrow> GameState \<Rightarrow> GameState" where
  "goTo scenes i s =
     (if i = ''chapter_end''
      then s\<lparr>current := i, complete := True, history := history s @ [i]\<rparr>
      else if \<not> truthy (get_property (sceneMap scenes) i) then s
      else s\<lparr>current := i, history := history s @ [i]\<rparr>)"

definition onChoose :: "Scene list \<Rightarrow> string \<Rightarrow> GameState \<Rightarrow> GameState" where
  "onChoose scenes nxt s = goTo scenes nxt s"

text \<open>
  \<^verbatim>\<open>
  const onSolve = ({ next, flags }) => {
    setState((s) => ({ ...s, flags: Array.from(new Set([...s.flags, ...flags])) }));
    goTo(next);
  };
  \<close>
  The two queued updates are applied in the order of the calls.
\<close>

definition onSolve :: "Scene list \<Rightarrow> PuzzleResult \<Rightarrow> GameState \<Rightarrow> GameState" where
  "onSolve scenes r s =
     goTo scenes (res_next r) (s\<lparr>flags := new_Set (flags s @ res_flags r)\<rparr>)"

text \<open>
  \<^verbatim>\<open>
  const progress = Math.min(
    100,
    Math.round((new Set(state.history).size / (chapter.scenes.length + 1)) * 100)
  );
  \<close>
\<close>

definition progress :: "string list \<Rightarrow> Scene list \<Rightarrow> jsnumber" where
  "progress hist scenes =
     Math_min (Num 100)
       (Math_round
          (num_mul
             (num_div (number_of_nat (length (new_Set hist)))
                      (num_add (number_of_nat (length scenes)) (Num 1)))
             (Num 100)))"

section \<open>The scene view (SceneView)\<close>

datatype puzzle_component = FourierPuzzle_component

text \<open>\<^verbatim>\<open>export const puzzleRegistry = { "Fourier frequencies": FourierPuzzle };\<close>\<close>

definition puzzleRegistry :: "string \<rightharpoonup> puzzle_component" where
  "puzzleRegistry = fromEntries [(''Fourier frequencies'', FourierPuzzle_component)]"

text \<open>
  \<^verbatim>\<open>if (hasPuzzle && scene.puzzle?.concept && puzzleRegistry[scene.puzzle.concept])\<close>:
  the scene is shown by the registered puzzle component.
\<close>

definition registry_dispatch :: "Scene \<Rightarrow> bool" where
  "registry_dispatch scene = (case puzzle scene of
       None \<Rightarrow> False
     | Some p \<Rightarrow> concept p \<noteq> [] \<and> truthy (get_property puzzleRegistry (concept p)))"

text \<open>
  The callback given to the registered component; its result is kept as \<open>puzzleResult\<close>
  and handed to \<open>onSolve\<close> by the Continue button.
  \<^verbatim>\<open>
  onSolve={(ok) => {
    const next = ok ? scene.puzzle!.success_next : scene.puzzle!.fail_next;
    setPuzzleResult({ ok, next,
      flags: ok ? scene.flags_set ?? ["solved_puzzle"] : scene.flags_set ?? ["failed_puzzle"],
    });
  }}
  \<close>
  The result is \<open>None\<close> for a scene without a puzzle, where the source would fail on
  \<open>scene.puzzle!\<close>; the callback exists only when \<open>registry_dispatch\<close> holds.
\<close>

definition registry_onSolve :: "Scene \<Rightarrow> bool \<Rightarrow> PuzzleResult option" where
  "registry_onSolve scene ok = (case puzzle scene of
       None \<Rightarrow> None
     | Some p \<Rightarrow> Some \<lparr>res_ok = ok,
                        res_next = (if ok then success_next p else fail_next p),
                        res_flags = (if ok then nullish (flags_set scene) [''solved_puzzle'']
                                     else nullish (flags_set scene) [''failed_puzzle''])\<rparr>)"

text \<open>
  The generic question/answer path of SceneView.  The result is the argument of the call
  of \<open>onSolve\<close>, if there is one.
  \<^verbatim>\<open>
  const handleSubmit = () => {
    if (!hasPuzzle) return;
    const ok = isCorrect(input, scene.puzzle!.answer);
    setFeedback(ok ? "Correct." : "Not quite. Continue for now.");
    if (ok && scene.puzzle?.animation) setShowAnim(true);
    else {
      const next = ok ? scene.puzzle!.success_next : scene.puzzle!.fail_next;
      onSolve({ ok, next,
        flags: ok ? scene.flags_set ?? ["solved_puzzle"] : ["failed_puzzle"] });
    }
  };
  \<close>
\<close>

definition animation_truthy :: "Puzzle \<Rightarrow> bool" where
  "animation_truthy p = (case animation p of None \<Rightarrow> False | Some a \<Rightarrow> a \<noteq> [])"

definition handleSubmit :: "Scene \<Rightarrow> string \<Rightarrow> PuzzleResult option" where
  "handleSubmit scene input = (case puzzle scene of
       None \<Rightarrow> None
     | Some p \<Rightarrow>
         (let ok = isCorrect input (answer p)
          in if ok \<and> animation_truthy p then None
             else Some \<lparr>res_ok = ok,
                        res_next = (if ok then success_next p else fail_next p),
                        res_flags = (if ok then nullish (flags_set scene) [''solved_puzzle'']
                                     else [''failed_puzzle''])\<rparr>))"

text \<open>
  The same handler in the single-file version of the game (the module that declares the
  interfaces, the storage helpers, SceneView and SciFiTextGame together):
  \<^verbatim>\<open>
      flags: ok
        ? scene.flags_set ?? ["solved_puzzle"]
        : scene.flags_set ?? ["failed_puzzle"],
  \<close>
  and its Continue button under the animation, which calls
  \<^verbatim>\<open>onSolve({ ok: true, next, flags: scene.flags_set ?? ["solved_puzzle"] })\<close>.
\<close>

definition handleSubmit_single_file :: "Scene \<Rightarrow> string \<Rightarrow> PuzzleResult option" where
  "handleSubmit_single_file scene input = (case puzzle scene of
       None \<Rightarrow> None
     | Some p \<Rightarrow>
         (let ok = isCorrect input (answer p)
          in if ok \<and> animation_truthy p then None
             else Some \<lparr>res_ok = ok,
                        res_next = (if ok then success_next p else fail_next p),
                        res_flags = (if ok then nullish (flags_set scene) [''solved_puzzle'']
                                     else nullish (flags_set scene) [''failed_puzzle''])\<rparr>))"

definition animation_continue :: "Scene \<Rightarrow> PuzzleResult option" where
  "animation_continue scene = (case puzzle scene of
       None \<Rightarrow> None
     | Some p \<Rightarrow> Some \<lparr>res_ok = True,
                        res_next = success_next p,
                        res_flags = nullish (flags_set scene) [''solved_puzzle'']\<rparr>)"

section \<open>The harmonic puzzle (FourierPuzzle)\<close>

text \<open>
  \<^verbatim>\<open>
  const f0 = 0.3;               // true fundamental
  const tolerance = 0.02;       // slider correctness tolerance
  const harmonics = [1, 2, 3, 4, 5];     // candidates to choose in stage 2
  const correctSet = [1, 3, 5];          // actual present harmonics (0.3, 0.9, 1.5)
  \<close>
  A numeric literal denotes the binary64 value nearest to it.
\<close>

definition f0 :: jsnumber where
  "f0 = round_double (3 / 10)"

definition tolerance :: jsnumber where
  "tolerance = round_double (2 / 100)"

definition harmonics :: "int list" where
  "harmonics = [1, 2, 3, 4, 5]"

definition correctSet :: "int list" where
  "correctSet = [1, 3, 5]"

text \<open>The stage is \<open>1 | 2\<close> in the source.\<close>

datatype stage = Stage1 | Stage2

text \<open>The feedback line; the messages of the source are: empty; the fundamental is
  found; the fundamental is not found; the harmonics are right; the harmonics are wrong.\<close>

datatype feedback =
  NoFeedback | FundamentalFound | FundamentalNotQuite | HarmonicsNailed | HarmonicsClose

record FourierPuzzle =
  stage :: stage
  freqGuess :: jsnumber
  feedback :: feedback
  selected :: "int list"

text \<open>
  \<^verbatim>\<open>
  const [stage, setStage] = useState<1 | 2>(1);
  const [freqGuess, setFreqGuess] = useState(0.5);
  const [feedback, setFeedback] = useState("");
  const [selected, setSelected] = useState<number[]>([]);
  \<close>
\<close>

definition initial :: FourierPuzzle where
  "initial = \<lparr>stage = Stage1, freqGuess = round_double (5 / 10),
               feedback = NoFeedback, selected = []\<rparr>"

definition setFreqGuess :: "jsnumber \<Rightarrow> FourierPuzzle \<Rightarrow> FourierPuzzle" where
  "setFreqGuess g s = s\<lparr>freqGuess := g\<rparr>"

text \<open>\<^verbatim>\<open>const nearCorrect = Math.abs(freqGuess - f0) < tolerance;\<close>\<close>

definition nearCorrect :: "FourierPuzzle \<Rightarrow> bool" where
  "nearCorrect s = num_lt (Math_abs (num_sub (freqGuess s) f0)) tolerance"

text \<open>
  An action of the component returns the new state and the calls of the \<open>onSolve\<close>
  callback it made, in order.
  \<^verbatim>\<open>
  const checkFundamental = () => {
    if (nearCorrect) { setFeedback(...); setStage(2); }
    else { setFeedback(...); }
  };
  \<close>
\<close>

definition checkFundamental :: "FourierPuzzle \<Rightarrow> FourierPuzzle \<times> bool list" where
  "checkFundamental s =
     (if nearCorrect s then (s\<lparr>feedback := FundamentalFound, stage := Stage2\<rparr>, [])
      else (s\<lparr>feedback := FundamentalNotQuite\<rparr>, []))"

text \<open>
  \<^verbatim>\<open>
  const toggleHarmonic = (n: number) => {
    setSelected((prev) => (prev.includes(n) ? prev.filter((x) => x !== n) : [...prev, n]));
  };
  \<close>
  The multipliers passed are the members of \<open>harmonics\<close>, integers.
\<close>

definition toggleHarmonic :: "int \<Rightarrow> FourierPuzzle \<Rightarrow> FourierPuzzle" where
  "toggleHarmonic n s =
     s\<lparr>selected := (if n \<in> set (selected s) then filter (\<lambda>x. x \<noteq> n) (selected s)
                     else selected s @ [n])\<rparr>"

text \<open>
  \<^verbatim>\<open>
  const checkHarmonics = () => {
    const ok =
      selected.length === correctSet.length &&
      selected.every((n) => correctSet.includes(n));
    if (ok) { setFeedback(...); onSolve(true); }
    else { setFeedback(...); onSolve(false); }
  };
  \<close>
\<close>

definition harmonics_ok :: "int list \<Rightarrow> bool" where
  "harmonics_ok sel \<longleftrightarrow>
     length sel = length correctSet \<and> list_all (\<lambda>n. n \<in> set correctSet) sel"

definition checkHarmonics :: "FourierPuzzle \<Rightarrow> FourierPuzzle \<times> bool list" where
  "checkHarmonics s =
     (if harmonics_ok (selected s) then (s\<lparr>feedback := HarmonicsNailed\<rparr>, [True])
      else (s\<lparr>feedback := HarmonicsClose\<rparr>, [False]))"

definition resetPuzzle :: "FourierPuzzle \<Rightarrow> FourierPuzzle" where
  "resetPuzzle s = s\<lparr>stage := Stage1, freqGuess := round_double (5 / 10),
                     selected := [], feedback := NoFeedback\<rparr>"

text \<open>The player's actions, and a run of them from a state, with the outcomes emitted.\<close>

datatype action =
  SetFreqGuess jsnumber | CheckFundamental | ToggleHarmonic int | CheckHarmonics | ResetPuzzle

fun act :: "action \<Rightarrow> FourierPuzzle \<Rightarrow> FourierPuzzle \<times> bool list" where
  "act (SetFreqGuess g) s = (setFreqGuess g s, [])"
| "act CheckFundamental s = checkFundamental s"
| "act (ToggleHarmonic n) s = (toggleHarmonic n s, [])"
| "act CheckHarmonics s = checkHarmonics s"
| "act ResetPuzzle s = (resetPuzzle s, [])"

fun run :: "action list \<Rightarrow> FourierPuzzle \<Rightarrow> FourierPuzzle \<times> bool list" where
  "run [] s = (s, [])"
| "run (a # as) s = (let (s1, out1) = act a s; (s2, out2) = run as s1 in (s2, out1 @ out2))"

text \<open>Attempts at the fundamental: each sets the slider and presses the check button.\<close>

definition attempts :: "jsnumber list \<Rightarrow> action list" where
  "attempts gs = concat (map (\<lambda>g. [SetFreqGuess g, CheckFundamental]) gs)"

section \<open>Test data\<close>

definition plain_scene :: "string \<Rightarrow> string \<Rightarrow> Scene" where
  "plain_scene i t = \<lparr>scene_id = i, title = t, scene_text = [], choices = None,
                       puzzle = None, flags_set = None\<rparr>"

definition colour_puzzle :: Puzzle where
  "colour_puzzle = \<lparr>ptype = ''text'', concept = ''Colours'', question = ''Which colour?'',
                     answer = ''blue'', success_next = ''s_ok'', fail_next = ''s_fail'',
                     animation = None, explanation = None\<rparr>"

definition door_scene :: Scene where
  "door_scene = \<lparr>scene_id = ''door'', title = ''The door'', scene_text = [], choices = None,
                  puzzle = Some colour_puzzle, flags_set = Some [''door_open'']\<rparr>"

definition start_state :: GameState where
  "start_state = \<lparr>current = ''s1'', flags = [''a''], history = [''s1''], complete = False\<rparr>"

definition visited_23 :: "string list" where
  "visited_23 = [''s01'', ''s02'', ''s03'', ''s04'', ''s05'', ''s06'', ''s07'', ''s08'', ''s09'',
     ''s10'', ''s11'', ''s12'', ''s13'', ''s14'', ''s15'', ''s16'', ''s17'', ''s18'', ''s19'',
     ''s20'', ''s21'', ''s22'', ''s23'']"

definition chapter_39 :: "Scene list" where
  "chapter_39 = map (\<lambda>i. plain_scene i ''Scene'') (visited_23 @
     [''s24'', ''s25'', ''s26'', ''s27'', ''s28'', ''s29'', ''s30'', ''s31'', ''s32'', ''s33'',
      ''s34'', ''s35'', ''s36'', ''s37'', ''s38'', ''s39''])"

section \<open>Rounding to binary64\<close>

lemma powi_mono: "a \<le> b \<Longrightarrow> (2::rat) powi a \<le> 2 powi b"
  by (simp add: power_int_increasing)

lemma powi_strict_mono: "a < b \<Longrightarrow> (2::rat) powi a < 2 powi b"
  by (simp add: power_int_strict_increasing)

lemma powi_pos: "0 < (2::rat) powi a"
  by simp

lemma bitlen_rat_bounds:
  assumes "0 < n"
  shows "(2::rat) powi (bitlen n - 1) \<le> of_int n" and "of_int n < (2::rat) powi (bitlen n)"
proof -
  from assms have b: "1 \<le> bitlen n"
    by (metis bitlen_eq_zero_iff bitlen_nonneg less_le_not_le linorder_not_less zle_diff1_eq zero_less_one diff_zero int_one_le_iff_zero_less order_less_le)
  from bitlen_bounds [OF assms]
  have 1: "2 ^ nat (bitlen n - 1) \<le> n" and 2: "n < 2 ^ nat (bitlen n)" by auto
  from 1 have "(of_int (2 ^ nat (bitlen n - 1)) :: rat) \<le> of_int n"
    by (simp only: of_int_le_iff)
  then show "(2::rat) powi (bitlen n - 1) \<le> of_int n"
    using b by (simp add: power_int_def)
  from 2 have "(of_int n :: rat) < of_int (2 ^ nat (bitlen n))"
    by (simp only: of_int_less_iff)
  then show "of_int n < (2::rat) powi (bitlen n)"
    using b by (simp add: power_int_def)
qed

lemma expo_bounds:
  assumes "q \<noteq> 0"
  shows "2 powi (expo q) \<le> \<bar>q\<bar>" and "\<bar>q\<bar> < 2 powi (expo q + 1)"
proof -
  obtain n d where nd: "quotient_of \<bar>q\<bar> = (n, d)" by (cases "quotient_of \<bar>q\<bar>")
  then have d: "0 < d" and q: "\<bar>q\<bar> = of_int n / of_int d"
    by (auto simp: quotient_of_denom_pos quotient_of_div)
  from assms have "0 < \<bar>q\<bar>" by simp
  with q d have n: "0 < n"
    by (simp add: zero_less_divide_iff)
  let ?e = "bitlen n - bitlen d"
  have up: "\<bar>q\<bar> < 2 powi (?e + 1)"
  proof -
    have "of_int n < (2::rat) powi (bitlen n)" by (rule bitlen_rat_bounds [OF n])
    moreover have "(2::rat) powi (bitlen d - 1) \<le> of_int d" by (rule bitlen_rat_bounds [OF d])
    ultimately have "of_int n * 2 powi (bitlen d - 1) < (2::rat) powi (bitlen n) * of_int d"
      using d n by (intro mult_less_le_imp_less) auto
    then have "of_int n / of_int d < (2::rat) powi (bitlen n) / 2 powi (bitlen d - 1)"
      using d by (simp add: field_simps)
    also have "\<dots> = 2 powi (?e + 1)"
      by (simp add: power_int_diff [symmetric] algebra_simps)
    finally show ?thesis by (simp add: q)
  qed
  have lo: "2 powi (?e - 1) < \<bar>q\<bar>"
  proof -
    have "(2::rat) powi (bitlen n - 1) \<le> of_int n" by (rule bitlen_rat_bounds [OF n])
    moreover have "of_int d < (2::rat) powi (bitlen d)" by (rule bitlen_rat_bounds [OF d])
    ultimately have "(2::rat) powi (bitlen n - 1) * of_int d < of_int n * 2 powi (bitlen d)"
      using d n by (intro mult_le_less_imp_less) auto
    then have "(2::rat) powi (bitlen n - 1) / 2 powi (bitlen d) < of_int n / of_int d"
      using d by (simp add: field_simps)
    moreover have "(2::rat) powi (bitlen n - 1) / 2 powi (bitlen d) = 2 powi (?e - 1)"
      by (simp add: power_int_diff [symmetric] algebra_simps)
    ultimately show ?thesis by (simp add: q)
  qed
  have ex: "expo q = (if \<bar>q\<bar> < 2 powi ?e then ?e - 1 else ?e)"
    by (simp add: expo_def nd)
  show "2 powi (expo q) \<le> \<bar>q\<bar>"
    using lo by (auto simp: ex)
  show "\<bar>q\<bar> < 2 powi (expo q + 1)"
    using up by (auto simp: ex)
qed

lemma expo_unique:
  assumes "2 powi e \<le> \<bar>q\<bar>" and "\<bar>q\<bar> < 2 powi (e + 1)"
  shows "expo q = e"
proof -
  from assms(1) have "0 < \<bar>q\<bar>" using powi_pos [of e] by linarith
  then have nz: "q \<noteq> 0" by auto
  note b = expo_bounds [OF nz]
  have "\<not> expo q < e"
  proof
    assume "expo q < e"
    then have "(2::rat) powi (expo q + 1) \<le> 2 powi e" by (intro powi_mono) simp
    with b(2) assms(1) show False by linarith
  qed
  moreover have "\<not> e < expo q"
  proof
    assume "e < expo q"
    then have "(2::rat) powi (e + 1) \<le> 2 powi (expo q)" by (intro powi_mono) simp
    with b(1) assms(2) show False by linarith
  qed
  ultimately show ?thesis by simp
qed

lemma rte_cases: "round_ties_even x = \<lfloor>x\<rfloor> \<or> round_ties_even x = \<lfloor>x\<rfloor> + 1"
  by (simp add: round_ties_even_def Let_def)

lemma floor_le_rte: "\<lfloor>x\<rfloor> \<le> round_ties_even x"
  using rte_cases [of x] by auto

lemma rte_le_ceiling: "round_ties_even x \<le> \<lceil>x\<rceil>"
proof (cases "x = of_int \<lfloor>x\<rfloor>")
  case True
  then have "round_ties_even x = \<lfloor>x\<rfloor>"
    by (simp add: round_ties_even_def Let_def)
  then show ?thesis by (simp add: floor_le_ceiling)
next
  case False
  then have "\<lceil>x\<rceil> = \<lfloor>x\<rfloor> + 1"
    by (metis ceiling_altdef)
  with rte_cases [of x] show ?thesis by auto
qed

lemma rte_unique:
  assumes "\<bar>x - of_int n\<bar> < 1/2"
  shows "round_ties_even x = n"
proof -
  have f: "of_int \<lfloor>x\<rfloor> \<le> x" "x < of_int \<lfloor>x\<rfloor> + 1" by linarith+
  from assms have "of_int n - 1/2 < x" "x < of_int n + 1/2" by linarith+
  with f have "(of_int n :: rat) < of_int \<lfloor>x\<rfloor> + 3/2" "(of_int \<lfloor>x\<rfloor> :: rat) < of_int n + 1/2"
    by linarith+
  then have "(of_int n :: rat) < of_int (\<lfloor>x\<rfloor> + 2)" "(of_int \<lfloor>x\<rfloor> :: rat) < of_int (n + 1)"
    by simp_all
  then have "n < \<lfloor>x\<rfloor> + 2" "\<lfloor>x\<rfloor> < n + 1"
    by (simp_all only: of_int_less_iff)
  then consider "n = \<lfloor>x\<rfloor>" | "n = \<lfloor>x\<rfloor> + 1" by linarith
  then show ?thesis
  proof cases
    case 1
    with assms have "x - of_int \<lfloor>x\<rfloor> < 1/2" by simp
    with 1 show ?thesis by (simp add: round_ties_even_def Let_def)
  next
    case 2
    then have "(of_int n :: rat) = of_int \<lfloor>x\<rfloor> + 1" by simp
    with assms have "1/2 < x - of_int \<lfloor>x\<rfloor>" by linarith
    with 2 show ?thesis by (simp add: round_ties_even_def Let_def)
  qed
qed

lemma rte_of_int: "round_ties_even (of_int n) = n"
  by (rule rte_unique) simp

lemma rte_ge:
  assumes "of_int k \<le> x"
  shows "k \<le> round_ties_even x"
proof -
  from assms have "k \<le> \<lfloor>x\<rfloor>" by (simp add: le_floor_iff)
  with floor_le_rte [of x] show ?thesis by linarith
qed

lemma rte_le:
  assumes "x \<le> of_int k"
  shows "round_ties_even x \<le> k"
proof -
  from assms have "\<lceil>x\<rceil> \<le> k" by (simp add: ceiling_le_iff)
  with rte_le_ceiling [of x] show ?thesis by linarith
qed

lemma rte_error: "\<bar>of_int (round_ties_even x) - x\<bar> \<le> 1/2"
proof -
  have f: "of_int \<lfloor>x\<rfloor> \<le> x" "x < of_int \<lfloor>x\<rfloor> + 1" by linarith+
  then show ?thesis
    by (auto simp: round_ties_even_def Let_def abs_le_iff)
qed

text \<open>The threshold of rounding at an odd integer: the tie goes away from it.\<close>

lemma rte_odd_floor:
  assumes "odd \<lfloor>z\<rfloor>"
  shows "round_ties_even z = (if z - of_int \<lfloor>z\<rfloor> < 1/2 then \<lfloor>z\<rfloor> else \<lfloor>z\<rfloor> + 1)"
  using assms by (simp add: round_ties_even_def Let_def)

lemma rte_even_floor:
  assumes "even \<lfloor>z\<rfloor>"
  shows "round_ties_even z = (if 1/2 < z - of_int \<lfloor>z\<rfloor> then \<lfloor>z\<rfloor> + 1 else \<lfloor>z\<rfloor>)"
  using assms by (simp add: round_ties_even_def Let_def)

lemma rte_le_odd:
  assumes "odd n"
  shows "round_ties_even z \<le> n \<longleftrightarrow> z < of_int n + 1/2"
proof -
  have f: "of_int \<lfloor>z\<rfloor> \<le> z" "z < of_int \<lfloor>z\<rfloor> + 1" by linarith+
  consider "\<lfloor>z\<rfloor> < n" | "\<lfloor>z\<rfloor> = n" | "n < \<lfloor>z\<rfloor>" by linarith
  then show ?thesis
  proof cases
    case 1
    then have "\<lfloor>z\<rfloor> + 1 \<le> n" by simp
    then have "(of_int (\<lfloor>z\<rfloor> + 1) :: rat) \<le> of_int n" by (simp only: of_int_le_iff)
    then have "of_int \<lfloor>z\<rfloor> + 1 \<le> (of_int n :: rat)" by simp
    with f have "z < of_int n + 1/2" by linarith
    moreover from rte_cases [of z] 1 have "round_ties_even z \<le> n" by auto
    ultimately show ?thesis by simp
  next
    case 2
    with assms have "odd \<lfloor>z\<rfloor>" by simp
    from rte_odd_floor [OF this] 2 show ?thesis by auto
  next
    case 3
    then have "n + 1 \<le> \<lfloor>z\<rfloor>" by simp
    then have "(of_int (n + 1) :: rat) \<le> of_int \<lfloor>z\<rfloor>" by (simp only: of_int_le_iff)
    then have "of_int n + 1 \<le> (of_int \<lfloor>z\<rfloor> :: rat)" by simp
    with f have "\<not> z < of_int n + 1/2" by linarith
    moreover from floor_le_rte [of z] 3 have "\<not> round_ties_even z \<le> n" by simp
    ultimately show ?thesis by simp
  qed
qed

lemma rte_ge_odd:
  assumes "odd n"
  shows "n \<le> round_ties_even z \<longleftrightarrow> of_int n - 1/2 < z"
proof -
  have f: "of_int \<lfloor>z\<rfloor> \<le> z" "z < of_int \<lfloor>z\<rfloor> + 1" by linarith+
  consider "\<lfloor>z\<rfloor> + 1 < n" | "\<lfloor>z\<rfloor> + 1 = n" | "n \<le> \<lfloor>z\<rfloor>" by linarith
  then show ?thesis
  proof cases
    case 1
    then have "\<lfloor>z\<rfloor> + 2 \<le> n" by simp
    then have "(of_int (\<lfloor>z\<rfloor> + 2) :: rat) \<le> of_int n" by (simp only: of_int_le_iff)
    then have "of_int \<lfloor>z\<rfloor> + 2 \<le> (of_int n :: rat)" by simp
    with f have "\<not> of_int n - 1/2 < z" by linarith
    moreover from rte_cases [of z] 1 have "\<not> n \<le> round_ties_even z" by auto
    ultimately show ?thesis by simp
  next
    case 2
    then have n: "(of_int n :: rat) = of_int \<lfloor>z\<rfloor> + 1"
      by (metis of_int_1 of_int_add)
    from 2 assms have "even \<lfloor>z\<rfloor>" by auto
    from rte_even_floor [OF this] have
      r: "round_ties_even z = (if 1/2 < z - of_int \<lfloor>z\<rfloor> then n else n - 1)"
      using 2 by auto
    show ?thesis
    proof (cases "1/2 < z - of_int \<lfloor>z\<rfloor>")
      case True
      with n have "of_int n - 1/2 < z" by linarith
      with True r show ?thesis by simp
    next
      case False
      with n have "\<not> of_int n - 1/2 < z" by linarith
      with False r show ?thesis by simp
    qed
  next
    case 3
    then have "(of_int n :: rat) \<le> of_int \<lfloor>z\<rfloor>" by (simp only: of_int_le_iff)
    with f have "of_int n - 1/2 < z" by linarith
    moreover from floor_le_rte [of z] 3 have "n \<le> round_ties_even z" by simp
    ultimately show ?thesis by simp
  qed
qed

text \<open>Rounding: the normal range, a certificate for a value, exact values, a lower bound.\<close>

lemma round_double_normal:
  assumes "2 powi e \<le> \<bar>q\<bar>" and "\<bar>q\<bar> < 2 powi (e + 1)" and "- 1022 \<le> e"
  shows "round_double q =
     (let r = of_int (round_ties_even (q / 2 powi (e - 52))) * 2 powi (e - 52)
      in if 2 powi 1024 \<le> \<bar>r\<bar> then (if 0 < q then PosInfinity else NegInfinity) else Num r)"
proof -
  from assms(1) have "0 < \<bar>q\<bar>" using powi_pos [of e] by linarith
  then have nz: "q \<noteq> 0" by auto
  have "expo q = e" by (rule expo_unique [OF assms(1,2)])
  with assms(3) have "max (expo q) (- 1022) = e" by simp
  with nz show ?thesis by (simp add: round_double_def Let_def)
qed

lemma round_double_cert:
  assumes "2 powi e \<le> \<bar>q\<bar>" and "\<bar>q\<bar> < 2 powi (e + 1)" and "- 1022 \<le> e"
    and "\<bar>q / 2 powi (e - 52) - of_int n\<bar> < 1/2"
    and "\<bar>of_int n * 2 powi (e - 52)\<bar> < (2::rat) powi 1024"
  shows "round_double q = Num (of_int n * 2 powi (e - 52))"
proof -
  have "round_ties_even (q / 2 powi (e - 52)) = n" by (rule rte_unique [OF assms(4)])
  with assms(5) show ?thesis
    by (simp add: round_double_normal [OF assms(1-3)] Let_def del: power_int_numeral)
qed

lemma round_double_exact:
  assumes q: "q = of_int m * 2 powi j" and j: "- 1074 \<le> j" and m: "\<bar>m\<bar> < 2 ^ 53"
    and lim: "\<bar>q\<bar> < 2 powi 1024"
  shows "round_double q = Num q"
proof (cases "q = 0")
  case True
  then show ?thesis by (simp add: round_double_def)
next
  case False
  define e where "e = max (expo q) (- 1022)"
  have "\<bar>q\<bar> = of_int \<bar>m\<bar> * 2 powi j" by (simp add: q abs_mult)
  also have "\<dots> < 2 ^ 53 * 2 powi j"
  proof -
    from m have "(of_int \<bar>m\<bar> :: rat) < of_int (2 ^ 53)" by (simp only: of_int_less_iff)
    then show ?thesis by (simp del: of_int_abs)
  qed
  also have "\<dots> = 2 powi (j + 53)" by (simp add: power_int_add)
  finally have "\<bar>q\<bar> < 2 powi (j + 53)" .
  with expo_bounds(1) [OF False] have "(2::rat) powi (expo q) < 2 powi (j + 53)" by linarith
  then have "expo q < j + 53"
    by (metis linorder_not_less powi_mono)
  with j have le: "e \<le> j + 52" by (simp add: e_def)
  define d where "d = nat (j + 52 - e)"
  have "q / 2 powi (e - 52) = of_int m * 2 powi (j - (e - 52))"
    by (simp add: q power_int_diff)
  also have "j - (e - 52) = int d" using le by (simp add: d_def)
  finally have "q / 2 powi (e - 52) = of_int (m * 2 ^ d)" by simp
  then have "round_ties_even (q / 2 powi (e - 52)) = m * 2 ^ d"
    by (simp only: rte_of_int)
  moreover have "of_int (m * 2 ^ d) * 2 powi (e - 52) = q"
  proof -
    have "of_int (m * 2 ^ d) * (2::rat) powi (e - 52) = of_int m * (2 powi (int d) * 2 powi (e - 52))"
      by simp
    also have "2 powi (int d) * (2::rat) powi (e - 52) = 2 powi (int d + (e - 52))"
      by (simp add: power_int_add)
    also have "int d + (e - 52) = j" using le by (simp add: d_def)
    finally show ?thesis by (simp add: q)
  qed
  ultimately show ?thesis
    using False lim by (simp add: round_double_def Let_def e_def [symmetric] del: power_int_numeral)
qed

lemma round_double_of_int:
  assumes "\<bar>k\<bar> < 2 ^ 53"
  shows "round_double (of_int k) = Num (of_int k)"
proof (rule round_double_exact [where m = k and j = 0])
  from assms have "(of_int \<bar>k\<bar> :: rat) < of_int (2 ^ 53)" by (simp only: of_int_less_iff)
  also have "(of_int (2 ^ 53) :: rat) < 2 powi 1024" by simp
  finally show "\<bar>rat_of_int k\<bar> < 2 powi 1024" by simp
qed (use assms in simp_all)

lemma round_double_abs_ge:
  assumes "2 powi k \<le> \<bar>q\<bar>" and "- 1022 \<le> k"
  shows "num_le (Num (2 powi k)) (Math_abs (round_double q))"
proof -
  from assms(1) have "0 < \<bar>q\<bar>" using powi_pos [of k] by linarith
  then have nz: "q \<noteq> 0" by auto
  define e where "e = expo q"
  note b = expo_bounds [OF nz, folded e_def]
  from assms(1) b(2) have "(2::rat) powi k < 2 powi (e + 1)" by linarith
  then have ke: "k \<le> e" by (metis linorder_not_less powi_mono zle_add1_eq_le)
  with assms(2) have e: "- 1022 \<le> e" by simp
  define u :: rat where "u = 2 powi (e - 52)"
  have u: "0 < u" by (simp add: u_def)
  define n where "n = round_ties_even (q / u)"
  have big: "2 powi e = 2 ^ 52 * u"
    by (simp add: u_def power_int_diff)
  have n: "2 ^ 52 \<le> \<bar>n\<bar>"
  proof (cases "0 < q")
    case True
    with b(1) big have "2 ^ 52 * u \<le> q" by simp
    then have "of_int (2 ^ 52) \<le> q / u" using u by (simp add: field_simps)
    then have "2 ^ 52 \<le> n" unfolding n_def by (rule rte_ge)
    then show ?thesis by simp
  next
    case False
    with nz b(1) big have "2 ^ 52 * u \<le> - q" by simp
    then have "q / u \<le> of_int (- (2 ^ 52))" using u by (simp add: field_simps)
    then have "n \<le> - (2 ^ 52)" unfolding n_def by (rule rte_le)
    then show ?thesis by simp
  qed
  have r: "2 powi k \<le> \<bar>of_int n * u\<bar>"
  proof -
    from n have "(of_int (2 ^ 52) :: rat) \<le> of_int \<bar>n\<bar>" by (simp only: of_int_le_iff)
    then have "of_int (2 ^ 52) * u \<le> of_int \<bar>n\<bar> * u"
      using u by (intro mult_right_mono) simp_all
    then have 1: "2 powi e \<le> \<bar>of_int n * u\<bar>"
      using u by (simp add: big abs_mult)
    have 2: "(2::rat) powi k \<le> 2 powi e" using ke by (rule powi_mono)
    from 1 2 show ?thesis by linarith
  qed
  show ?thesis
    using r by (simp add: round_double_normal [OF b e] Let_def u_def [symmetric] n_def [symmetric])
qed

text \<open>Below a power of two the rounded value stays at most that power.\<close>

lemma round_double_abs_le:
  assumes "\<bar>q\<bar> < 2 powi k" and "- 1022 \<le> k" and "k \<le> 1023"
  shows "\<exists>r. round_double q = Num r \<and> \<bar>r\<bar> \<le> 2 powi k"
proof (cases "q = 0")
  case True
  then show ?thesis by (simp add: round_double_def)
next
  case False
  define e where "e = max (expo q) (- 1022)"
  define u :: rat where "u = 2 powi (e - 52)"
  define z where "z = q / u"
  define n where "n = round_ties_even z"
  have u: "0 < u" by (simp add: u_def)
  note b = expo_bounds [OF False]
  from b(1) assms(1) have "(2::rat) powi (expo q) < 2 powi k" by linarith
  then have "expo q < k" by (metis linorder_not_less powi_mono)
  with assms(2) have ek: "e \<le> k" by (simp add: e_def)
  have "expo q + 1 \<le> e + 1" by (simp add: e_def)
  then have "(2::rat) powi (expo q + 1) \<le> 2 powi (e + 1)" by (rule powi_mono)
  with b(2) have qe: "\<bar>q\<bar> < 2 powi (e + 1)" by linarith
  have p: "(2::rat) powi (e + 1) = 2 ^ 53 * u"
    by (simp add: u_def power_int_diff power_int_add)
  from qe have "\<bar>q\<bar> < 2 ^ 53 * u" by (simp only: p)
  then have "\<bar>q\<bar> / u < 2 ^ 53" using u by (simp add: pos_divide_less_eq)
  then have "\<bar>z\<bar> < 2 ^ 53" using u by (simp add: z_def abs_divide)
  then have "z \<le> 2 ^ 53" "- (2 ^ 53) \<le> z" by linarith+
  then have zb: "z \<le> of_int (2 ^ 53)" "of_int (- (2 ^ 53)) \<le> z" by simp_all
  have "n \<le> 2 ^ 53" "- (2 ^ 53) \<le> n"
    unfolding n_def using rte_le [OF zb(1)] rte_ge [OF zb(2)] by simp_all
  then have "\<bar>n\<bar> \<le> 2 ^ 53" by simp
  then have "(of_int \<bar>n\<bar> :: rat) \<le> of_int (2 ^ 53)" by (simp only: of_int_le_iff)
  then have "of_int \<bar>n\<bar> * u \<le> of_int (2 ^ 53) * u"
    using u by (intro mult_right_mono) simp_all
  then have r: "\<bar>of_int n * u\<bar> \<le> 2 powi (e + 1)"
    using u by (simp add: p abs_mult)
  show ?thesis
  proof (cases "e < k")
    case True
    then have "(2::rat) powi (e + 1) \<le> 2 powi k" by (intro powi_mono) simp
    with r have le: "\<bar>of_int n * u\<bar> \<le> 2 powi k" by linarith
    have "(2::rat) powi k < 2 powi 1024" using assms(3) by (intro powi_strict_mono) simp
    with le have "\<not> 2 powi 1024 \<le> \<bar>of_int n * u\<bar>" by linarith
    with le False show ?thesis
      by (simp add: round_double_def Let_def e_def [symmetric] u_def [symmetric]
          z_def [symmetric] n_def [symmetric] del: power_int_numeral)
  next
    case False
    with ek have ke: "e = k" by simp
    have "expo q < - 1022"
      using \<open>expo q < k\<close> ke by (simp add: e_def max_def split: if_splits)
    then have "(2::rat) powi (expo q + 1) \<le> 2 powi (- 1022)" by (intro powi_mono) simp
    with b(2) have small: "\<bar>q\<bar> < 2 powi (- 1022)" by linarith
    from \<open>expo q < - 1022\<close> have e: "e = - 1022" by (simp add: e_def)
    have p2: "(2::rat) powi (- 1022) = 2 ^ 52 * u"
      by (simp add: u_def e power_int_diff)
    from small have "\<bar>q\<bar> < 2 ^ 52 * u" by (simp only: p2)
    then have "\<bar>q\<bar> / u < 2 ^ 52" using u by (simp add: pos_divide_less_eq)
    then have "\<bar>z\<bar> < 2 ^ 52" using u by (simp add: z_def abs_divide)
    then have "z \<le> 2 ^ 52" "- (2 ^ 52) \<le> z" by linarith+
    then have zb: "z \<le> of_int (2 ^ 52)" "of_int (- (2 ^ 52)) \<le> z" by simp_all
    have "n \<le> 2 ^ 52" "- (2 ^ 52) \<le> n"
      unfolding n_def using rte_le [OF zb(1)] rte_ge [OF zb(2)] by simp_all
    then have "\<bar>n\<bar> \<le> 2 ^ 52" by simp
    then have "(of_int \<bar>n\<bar> :: rat) \<le> of_int (2 ^ 52)" by (simp only: of_int_le_iff)
    then have "of_int \<bar>n\<bar> * u \<le> of_int (2 ^ 52) * u"
      using u by (intro mult_right_mono) simp_all
    then have "\<bar>of_int n * u\<bar> \<le> 2 ^ 52 * u"
      using u by (simp add: abs_mult)
    then have "\<bar>of_int n * u\<bar> \<le> 2 powi (- 1022)" by (simp only: p2)
    with ke e have le: "\<bar>of_int n * u\<bar> \<le> 2 powi k" by (simp only:)
    have "(2::rat) powi k < 2 powi 1024" using assms(3) by (intro powi_strict_mono) simp
    with le have "\<not> 2 powi 1024 \<le> \<bar>of_int n * u\<bar>" by linarith
    with le \<open>q \<noteq> 0\<close> show ?thesis
      by (simp add: round_double_def Let_def e_def [symmetric] u_def [symmetric]
          z_def [symmetric] n_def [symmetric] del: power_int_numeral)
  qed
qed

text \<open>The numeric literals of the source, and zero.\<close>

lemma round_double_0 [simp]: "round_double 0 = Num 0"
  by (simp add: round_double_def)

lemma epsilon_value: "round_double (1 / 1000000) = Num (4722366482869645 / 4722366482869645213696)"
  using round_double_cert [where q = "1/1000000" and e = "-20" and n = 4722366482869645]
  by simp

lemma f0_value: "f0 = Num (5404319552844595 / 18014398509481984)"
  unfolding f0_def
  using round_double_cert [where q = "3/10" and e = "-2" and n = 5404319552844595]
  by simp

lemma tolerance_value: "tolerance = Num (5764607523034235 / 288230376151711744)"
  unfolding tolerance_def
  using round_double_cert [where q = "2/100" and e = "-6" and n = 5764607523034235]
  by simp

lemma not_num_le_of_num_le:
  assumes "num_le (Num a) x" and "b < a"
  shows "\<not> num_le x (Num b)"
  using assms by (cases x) auto

text \<open>
  The test against the tolerance, over the rationals: the rounded difference is at most
  the binary64 value of \<open>1e-6\<close> exactly when the difference is below the midpoint between
  that value and the next binary64 value.
\<close>

lemma tolerance_test_exact:
  "num_le (Math_abs (round_double q)) (Num (4722366482869645 / 4722366482869645213696))
     \<longleftrightarrow> \<bar>q\<bar> < 9444732965739291 / 9444732965739290427392"
proof -
  consider "\<bar>q\<bar> < 2 powi (- 20)" | "2 powi (- 20) \<le> \<bar>q\<bar>" "\<bar>q\<bar> < 2 powi (- 20 + 1)"
    | "2 powi (- 19) \<le> \<bar>q\<bar>"
    by (simp only: add.commute [of "- 20" 1]) force
  then show ?thesis
  proof cases
    case 1
    from round_double_abs_le [OF 1] obtain r where
      r: "round_double q = Num r" "\<bar>r\<bar> \<le> 2 powi (- 20)" by auto
    from 1 have "\<bar>q\<bar> < 9444732965739291 / 9444732965739290427392" by simp
    moreover from r(2) have "\<bar>r\<bar> \<le> 4722366482869645 / 4722366482869645213696" by simp
    ultimately show ?thesis by (simp add: r(1))
  next
    case 2
    define z where "z = q / 2 powi (- 20 - 52)"
    define n where "n = round_ties_even z"
    have qz: "q = z / 4722366482869645213696" by (simp add: z_def)
    from 2 have "\<bar>z\<bar> < 2 ^ 53" by (simp add: z_def abs_divide)
    then have zb: "z \<le> of_int (2 ^ 53)" "of_int (- (2 ^ 53)) \<le> z" by simp_all
    have nb: "n \<le> 2 ^ 53" "- (2 ^ 53) \<le> n"
      unfolding n_def using rte_le [OF zb(1)] rte_ge [OF zb(2)] by simp_all
    then have "(of_int n :: rat) \<le> of_int (2 ^ 53)" "(of_int (- (2 ^ 53)) :: rat) \<le> of_int n"
      by (simp_all only: of_int_le_iff)
    then have small: "\<bar>of_int n :: rat\<bar> \<le> 2 ^ 53" by simp
    define r :: rat where "r = of_int n * 2 powi (- 20 - 52)"
    have "\<bar>r\<bar> < 1" using small by (simp add: r_def abs_mult)
    moreover have "(1::rat) \<le> 2 powi 1024" by simp
    ultimately have nr: "\<not> 2 powi 1024 \<le> \<bar>r\<bar>" by linarith
    have "round_double q =
        (if 2 powi 1024 \<le> \<bar>r\<bar> then (if 0 < q then PosInfinity else NegInfinity) else Num r)"
      unfolding r_def n_def z_def using round_double_normal [OF 2] by (simp only: Let_def)
    with nr have "round_double q = Num r" by (simp only: if_False)
    then have rd: "round_double q = Num (of_int n / 4722366482869645213696)"
      by (simp add: r_def)
    have odd: "odd (4722366482869645 :: int)" "odd (- 4722366482869645 :: int)" by simp_all
    have "\<bar>of_int n :: rat\<bar> \<le> 4722366482869645 \<longleftrightarrow> n \<le> 4722366482869645 \<and> - 4722366482869645 \<le> n"
      by (simp add: abs_le_iff) linarith
    also have "\<dots> \<longleftrightarrow> z < 4722366482869645 + 1/2 \<and> - 4722366482869645 - 1/2 < z"
      using rte_le_odd [OF odd(1), of z] rte_ge_odd [OF odd(2), of z] by (simp add: n_def)
    also have "\<dots> \<longleftrightarrow> \<bar>q\<bar> < 9444732965739291 / 9444732965739290427392"
      by (auto simp: qz abs_less_iff)
    finally show ?thesis by (simp add: rd abs_divide)
  next
    case 3
    then have "num_le (Num (2 powi (- 19))) (Math_abs (round_double q))"
      by (rule round_double_abs_ge) simp
    then have "\<not> num_le (Math_abs (round_double q)) (Num (4722366482869645 / 4722366482869645213696))"
      by (rule not_num_le_of_num_le) simp
    moreover from 3 have "\<not> \<bar>q\<bar> < 9444732965739291 / 9444732965739290427392" by simp
    ultimately show ?thesis by simp
  qed
qed

section \<open>Reading numbers from strings\<close>

lemmas Number_defs = Number_def trim_def is_white_space_def parse_non_decimal_def split_sign_def
  parse_unsigned_decimal_def split_fraction_def parse_exponent_def parse_digits_def is_digit_def
  digit_of_def digits_value_def Let_def

lemma Number_blank: "Number '''' = Num 0" "Number ''   '' = Num 0" "Number ''0'' = Num 0"
  "trim '''' = []" "trim ''   '' = []" "trim ''0'' = ''0''"
  by (simp_all add: Number_defs)

lemma Number_words:
  "Number ''Blue'' = NaN" "Number ''blue'' = NaN" "Number ''ten'' = NaN" "Number ''infinity'' = NaN"
  "Number ''Infinity'' = PosInfinity" "Number ''10'' = round_double 10"
  "Number ''red'' = NaN"
  "trim ''Blue'' = ''Blue''" "trim ''blue'' = ''blue''" "trim ''ten'' = ''ten''"
  "trim ''infinity'' = ''infinity''" "trim ''Infinity'' = ''Infinity''" "trim ''10'' = ''10''"
  "trim ''red'' = ''red''"
  by (simp_all add: Number_defs)

lemma Number_more:
  "Number ''11'' = round_double 11" "trim ''11'' = ''11''" "trim '' 10 '' = ''10''"
  "Number ''0.000001'' = round_double (1 / 1000000)" "trim ''0.000001'' = ''0.000001''"
  "Number ''-5e-23'' = round_double (- (5 / 100000000000000000000000))"
  "trim ''-5e-23'' = ''-5e-23''"
  by (simp_all add: Number_defs)

lemma tiny_value:
  "round_double (- (5 / 100000000000000000000000))
     = Num (- (4253529586511731 / 85070591730234615865843651857942052864))"
  using round_double_cert [where q = "- (5 / 100000000000000000000000)" and e = "- 75"
      and n = "- 8507059173023462"]
  by simp

lemma Number_cases:
  "Number s =
     (if trim s = [] then Num 0
      else case parse_non_decimal (trim s) of
             Some n \<Rightarrow> round_double (of_int n)
           | None \<Rightarrow>
               if snd (split_sign (trim s)) = ''Infinity''
               then (if fst (split_sign (trim s)) then NegInfinity else PosInfinity)
               else case parse_unsigned_decimal (snd (split_sign (trim s))) of
                      None \<Rightarrow> NaN
                    | Some q \<Rightarrow> round_double (if fst (split_sign (trim s)) then - q else q))"
  by (simp add: Number_def Let_def split_beta cong: option.case_cong)

lemma round_double_not_NaN [simp]: "\<not> isNaN (round_double q)"
  by (simp add: round_double_def Let_def)

text \<open>
  Lower-casing a string does not change what \<open>Number\<close> reads from it, but for
  \<open>Infinity\<close>, the only word of the grammar whose case matters.
\<close>

lemma code_lower_char:
  "(of_char (lower_char c) :: int) =
     (if (65 \<le> (of_char c :: int) \<and> (of_char c :: int) \<le> 90) \<or>
         (192 \<le> (of_char c :: int) \<and> (of_char c :: int) \<le> 222 \<and> (of_char c :: int) \<noteq> 215)
      then of_char c + 32 else of_char c)"
  by (simp add: lower_char_def Let_def)

lemma char_eq_code: "c = d \<longleftrightarrow> (of_char c :: int) = of_char d"
  by (metis of_char_eq_iff)

lemma white_space_lower [simp]: "is_white_space (lower_char c) = is_white_space c"
  by (auto simp: is_white_space_def code_lower_char Let_def)

lemma digit_of_lower [simp]: "digit_of (lower_char c) = digit_of c"
  by (auto simp: digit_of_def code_lower_char Let_def)

lemma lower_eq_specific [simp]:
  "lower_char c = CHR ''0'' \<longleftrightarrow> c = CHR ''0''"
  "lower_char c = CHR ''.'' \<longleftrightarrow> c = CHR ''.''"
  "lower_char c = CHR ''-'' \<longleftrightarrow> c = CHR ''-''"
  "lower_char c = CHR ''+'' \<longleftrightarrow> c = CHR ''+''"
  "lower_char c = CHR ''x'' \<longleftrightarrow> c = CHR ''x'' \<or> c = CHR ''X''"
  "lower_char c = CHR ''o'' \<longleftrightarrow> c = CHR ''o'' \<or> c = CHR ''O''"
  "lower_char c = CHR ''b'' \<longleftrightarrow> c = CHR ''b'' \<or> c = CHR ''B''"
  "lower_char c = CHR ''e'' \<longleftrightarrow> c = CHR ''e'' \<or> c = CHR ''E''"
  "lower_char c \<noteq> CHR ''I''" "lower_char c \<noteq> CHR ''X''" "lower_char c \<noteq> CHR ''O''"
  "lower_char c \<noteq> CHR ''B''" "lower_char c \<noteq> CHR ''E''"
  unfolding char_eq_code [of _ "CHR ''0''"] char_eq_code [of _ "CHR ''.''"]
    char_eq_code [of _ "CHR ''-''"] char_eq_code [of _ "CHR ''+''"]
    char_eq_code [of _ "CHR ''x''"] char_eq_code [of _ "CHR ''X''"]
    char_eq_code [of _ "CHR ''o''"] char_eq_code [of _ "CHR ''O''"]
    char_eq_code [of _ "CHR ''b''"] char_eq_code [of _ "CHR ''B''"]
    char_eq_code [of _ "CHR ''e''"] char_eq_code [of _ "CHR ''E''"]
    char_eq_code [of _ "CHR ''I''"] code_lower_char
  by auto

lemma trim_lower [simp]: "trim (map lower_char s) = map lower_char (trim s)"
  by (simp add: trim_def dropWhile_map rev_map comp_def)

lemma is_digit_lower [simp]: "is_digit b (lower_char c) = is_digit b c"
  by (simp add: is_digit_def)

lemma digits_value_lower_aux:
  "foldl (\<lambda>a c. b * a + (case digit_of c of None \<Rightarrow> 0 | Some v \<Rightarrow> v)) acc (map lower_char ds)
   = foldl (\<lambda>a c. b * a + (case digit_of c of None \<Rightarrow> 0 | Some v \<Rightarrow> v)) acc ds"
  by (induction ds arbitrary: acc) simp_all

lemma digits_value_lower [simp]: "digits_value b (map lower_char ds) = digits_value b ds"
  by (simp add: digits_value_def digits_value_lower_aux)

lemma parse_digits_lower [simp]: "parse_digits b (map lower_char ds) = parse_digits b ds"
  by (simp add: parse_digits_def list_all_iff)

lemma parse_non_decimal_lower [simp]:
  "parse_non_decimal (map lower_char s) = parse_non_decimal s"
proof (cases s)
  case Nil
  then show ?thesis by (simp add: parse_non_decimal_def)
next
  case (Cons z t)
  then show ?thesis by (cases t) (simp_all add: parse_non_decimal_def)
qed

lemma split_sign_lower [simp]:
  "split_sign (map lower_char s) = (fst (split_sign s), map lower_char (snd (split_sign s)))"
  by (cases s) (simp_all add: split_sign_def)

lemma parse_exponent_lower [simp]: "parse_exponent (map lower_char s) = parse_exponent s"
  by (cases s) (simp_all add: parse_exponent_def split_beta cong: option.case_cong)

lemma takeWhile_digit_lower [simp]:
  "takeWhile (is_digit b) (map lower_char s) = map lower_char (takeWhile (is_digit b) s)"
  by (simp add: takeWhile_map comp_def)

lemma dropWhile_digit_lower [simp]:
  "dropWhile (is_digit b) (map lower_char s) = map lower_char (dropWhile (is_digit b) s)"
  by (simp add: dropWhile_map comp_def)

lemma split_fraction_lower [simp]:
  "split_fraction (map lower_char r) =
     (map lower_char (fst (split_fraction r)), map lower_char (snd (split_fraction r)))"
  by (cases r) (simp_all add: split_fraction_def)

lemma parse_unsigned_decimal_lower [simp]:
  "parse_unsigned_decimal (map lower_char s) = parse_unsigned_decimal s"
proof -
  have *: "digits_value 10 (map lower_char xs @ map lower_char ys) = digits_value 10 (xs @ ys)"
    for xs ys using digits_value_lower [of 10 "xs @ ys"] by simp
  show ?thesis
    by (simp add: parse_unsigned_decimal_def Let_def split_beta * cong: option.case_cong)
qed

lemma lower_not_Infinity: "map lower_char u \<noteq> ''Infinity''"
proof
  assume "map lower_char u = ''Infinity''"
  then obtain c cs where "u = c # cs" and "lower_char c = CHR ''I''" by (cases u) auto
  then show False by simp
qed

lemma Number_lower_NaN:
  assumes "isNaN (Number s)"
  shows "isNaN (Number (toLowerCase s))"
  using assms lower_not_Infinity [of "snd (split_sign (trim s))"]
  unfolding toLowerCase_def Number_cases [of s] Number_cases [of "map lower_char s"]
  by (simp split: if_splits option.splits)

lemma Number_lower_finite:
  assumes "Number s = Num x"
  shows "Number (toLowerCase s) = Num x"
  using assms lower_not_Infinity [of "snd (split_sign (trim s))"]
  unfolding toLowerCase_def Number_cases [of s] Number_cases [of "map lower_char s"]
  by (simp split: if_splits option.splits)

lemma finite_never_matches_NaN:
  assumes "isFinite (Number a)" and "isNaN (Number b)"
  shows "toLowerCase a \<noteq> toLowerCase b"
proof
  assume eq: "toLowerCase a = toLowerCase b"
  from assms(1) obtain x where "Number a = Num x" by (cases "Number a") auto
  then have "Number (toLowerCase a) = Num x" by (rule Number_lower_finite)
  moreover from assms(2) have "isNaN (Number (toLowerCase b))" by (rule Number_lower_NaN)
  ultimately show False using eq by simp
qed

text \<open>Equality of the lower-cased strings is the comparison of the specification.\<close>

lemma lower_char_eq_iff: "lower_char c = lower_char d \<longleftrightarrow> same_letter c d"
  unfolding same_letter_def is_upper_case_def Let_def char_eq_code [of c d]
    char_eq_code [of "lower_char c" "lower_char d"] code_lower_char
  by auto

lemma toLowerCase_eq_iff: "toLowerCase s = toLowerCase t \<longleftrightarrow> equal_ignoring_case s t"
proof -
  have "toLowerCase s = toLowerCase t \<longleftrightarrow> list_all2 (\<lambda>c d. lower_char c = lower_char d) s t"
    by (simp add: toLowerCase_def list_all2_eq list_all2_map1 list_all2_map2)
  then show ?thesis
    by (simp add: equal_ignoring_case_def lower_char_eq_iff)
qed

section \<open>The answer evaluator\<close>

lemma isCorrect_textual:
  "isNaN (Number (trim a)) \<or> isNaN (Number (trim b)) \<Longrightarrow>
   isCorrect a b = (toLowerCase (trim a) = toLowerCase (trim b))"
  by (auto simp: isCorrect_def Let_def)

lemma isCorrect_finite_iff:
  assumes "Number (trim a) = Num x" and "Number (trim b) = Num y"
  shows "isCorrect a b \<longleftrightarrow> \<bar>x - y\<bar> < 9444732965739291 / 9444732965739290427392"
  using tolerance_test_exact [of "x - y"]
  by (simp add: isCorrect_def assms epsilon_value)

lemma isCorrect_text_iff:
  assumes "isNaN (Number (trim a)) \<or> isNaN (Number (trim b))"
  shows "isCorrect a b \<longleftrightarrow> equal_ignoring_case (trim a) (trim b)"
  using assms by (simp add: isCorrect_textual toLowerCase_eq_iff)

text \<open>
  C1, as amended.  \<open>isCorrect\<close> trims both strings.  When both trimmed strings are not
  empty and read as finite numbers \<open>x\<close> and \<open>y\<close>, the result is true if and only if
  \<open>\<bar>x - y\<bar>\<close> is below \<open>9444732965739291 / 2\<^sup>7\<^sup>3\<close>, the midpoint between the binary64 value
  of \<open>1e-6\<close> and the next one, which is what the test of the rounded difference against
  \<open>1e-6\<close> decides; so it is true whenever \<open>\<bar>x - y\<bar> \<le> 1e-6\<close>.  When at least one trimmed
  string does not read as a number (NaN), the result is whether the trimmed strings are
  equal but for the case of their letters.  A non-empty string that reads as a finite
  number never matches a string that does not read as a number, in either order.
\<close>

theorem isCorrect_numeric_tolerance_or_case_insensitive:
  "(trim userInput \<noteq> [] \<and> trim expected \<noteq> [] \<and>
    Number (trim userInput) = Num x \<and> Number (trim expected) = Num y \<longrightarrow>
      (isCorrect userInput expected
         \<longleftrightarrow> \<bar>x - y\<bar> < 9444732965739291 / 9444732965739290427392) \<and>
      (\<bar>x - y\<bar> \<le> 1 / 1000000 \<longrightarrow> isCorrect userInput expected)) \<and>
   (isNaN (Number (trim userInput)) \<or> isNaN (Number (trim expected)) \<longrightarrow>
      (isCorrect userInput expected
         \<longleftrightarrow> equal_ignoring_case (trim userInput) (trim expected))) \<and>
   (trim userInput \<noteq> [] \<and> isFinite (Number (trim userInput)) \<and>
    isNaN (Number (trim expected)) \<longrightarrow> \<not> isCorrect userInput expected) \<and>
   (isNaN (Number (trim userInput)) \<and> trim expected \<noteq> [] \<and>
    isFinite (Number (trim expected)) \<longrightarrow> \<not> isCorrect userInput expected)"
proof -
  have n: "(isCorrect userInput expected
         \<longleftrightarrow> \<bar>x - y\<bar> < 9444732965739291 / 9444732965739290427392) \<and>
      (\<bar>x - y\<bar> \<le> 1 / 1000000 \<longrightarrow> isCorrect userInput expected)"
    if "Number (trim userInput) = Num x" and "Number (trim expected) = Num y"
  proof -
    note i = isCorrect_finite_iff [OF that]
    have "\<bar>x - y\<bar> < 9444732965739291 / 9444732965739290427392" if "\<bar>x - y\<bar> \<le> 1 / 1000000"
      using that by simp
    with i show ?thesis by blast
  qed
  have "\<not> isCorrect userInput expected"
    if "isFinite (Number (trim userInput))" and "isNaN (Number (trim expected))"
    using finite_never_matches_NaN [OF that] that(2) by (simp add: isCorrect_textual)
  moreover have "\<not> isCorrect userInput expected"
    if "isNaN (Number (trim userInput))" and "isFinite (Number (trim expected))"
    using finite_never_matches_NaN [OF that(2,1)] that(1) by (auto simp: isCorrect_textual)
  ultimately show ?thesis
    using n isCorrect_text_iff [of userInput expected] by blast
qed

theorem isCorrect_numeric_tolerance_or_case_insensitive_witness:
  "(trim '' 10 '' \<noteq> [] \<and> trim ''10'' \<noteq> [] \<and> Number (trim '' 10 '') = Num 10 \<and>
    Number (trim ''10'') = Num 10 \<and> \<bar>10 - 10 :: rat\<bar> \<le> 1 / 1000000 \<and> isCorrect '' 10 '' ''10'') \<and>
   (trim ''11'' \<noteq> [] \<and> Number (trim ''11'') = Num 11 \<and>
    \<not> \<bar>10 - 11 :: rat\<bar> < 9444732965739291 / 9444732965739290427392 \<and>
    \<not> isCorrect ''10'' ''11'') \<and>
   (isNaN (Number (trim ''Blue'')) \<and> equal_ignoring_case (trim ''Blue'') (trim ''blue'') \<and>
    isCorrect ''Blue'' ''blue'') \<and>
   (isFinite (Number (trim ''10'')) \<and> isNaN (Number (trim ''ten'')) \<and>
    \<not> isCorrect ''10'' ''ten'' \<and> \<not> isCorrect ''ten'' ''10'')"
  using isCorrect_numeric_tolerance_or_case_insensitive [of "'' 10 ''" "''10''" 10 10]
    isCorrect_numeric_tolerance_or_case_insensitive [of "''10''" "''11''" 10 11]
    isCorrect_numeric_tolerance_or_case_insensitive [of "''Blue''" "''blue''"]
    isCorrect_numeric_tolerance_or_case_insensitive [of "''10''" "''ten''"]
    isCorrect_numeric_tolerance_or_case_insensitive [of "''ten''" "''10''"]
    round_double_of_int [of 10] round_double_of_int [of 11]
  by (simp add: Number_words Number_more equal_ignoring_case_def same_letter_def
      is_upper_case_def)

text \<open>
  C1 as stated fails twice.  \<open>Infinity\<close> reads as a number, \<open>infinity\<close> does not, and the
  two match.  \<open>0.000001\<close> and \<open>-5e-23\<close> read as numbers more than \<open>1e-6\<close> apart, and
  they match: their difference rounds to the binary64 value of \<open>1e-6\<close>.
\<close>

theorem isCorrect_counterexamples:
  "\<not> isNaN (Number (trim ''Infinity'')) \<and> isNaN (Number (trim ''infinity'')) \<and>
   isCorrect ''Infinity'' ''infinity'' \<and>
   Number (trim ''0.000001'') = Num (4722366482869645 / 4722366482869645213696) \<and>
   Number (trim ''-5e-23'')
     = Num (- (4253529586511731 / 85070591730234615865843651857942052864)) \<and>
   1 / 1000000 < \<bar>4722366482869645 / 4722366482869645213696
                    - (- (4253529586511731 / 85070591730234615865843651857942052864)) :: rat\<bar> \<and>
   isCorrect ''0.000001'' ''-5e-23''"
proof -
  have a: "Number (trim ''0.000001'') = Num (4722366482869645 / 4722366482869645213696)"
    by (simp add: Number_more epsilon_value)
  have b: "Number (trim ''-5e-23'')
      = Num (- (4253529586511731 / 85070591730234615865843651857942052864))"
    by (simp only: Number_more tiny_value)
  have "isCorrect ''0.000001'' ''-5e-23''"
    unfolding isCorrect_finite_iff [OF a b] by simp
  moreover have "isCorrect ''Infinity'' ''infinity''"
    by (simp add: isCorrect_def Number_words toLowerCase_def lower_char_def char_of_def)
  ultimately show ?thesis
    using a b by (simp add: Number_words)
qed

text \<open>The examples of the specification; and \<open>Infinity\<close> does not match itself, the
  difference of two infinities being NaN.\<close>

lemma isCorrect_examples:
  "isCorrect ''Blue'' ''blue'' \<and> \<not> isCorrect ''10'' ''ten'' \<and> \<not> isCorrect ''Infinity'' ''Infinity''"
  by (simp add: isCorrect_def Number_words toLowerCase_def lower_char_def char_of_def)

text \<open>
  The difference is the one of the binary64 values: \<open>2.000001\<close> and \<open>2\<close> are read
  as numbers that differ by slightly more than \<open>1e-6\<close> and do not match, \<open>1.000001\<close>
  and \<open>1\<close> as numbers that differ by slightly less and match.
\<close>

lemma isCorrect_decimal_boundary:
  "\<not> isCorrect ''2.000001'' ''2''" "isCorrect ''1.000001'' ''1''"
proof -
  have t: "trim ''2.000001'' = ''2.000001''" "trim ''2'' = ''2''"
    "trim ''1.000001'' = ''1.000001''" "trim ''1'' = ''1''"
    by (simp_all add: trim_def is_white_space_def)
  have "Number ''2.000001'' = round_double (2000001 / 1000000)"
    by (simp add: Number_defs)
  also have "\<dots> = Num (2251800939585155 / 1125899906842624)"
    using round_double_cert [where q = "2000001 / 1000000" and e = 1 and n = 4503601879170310]
    by simp
  finally have a2: "Number ''2.000001'' = Num (2251800939585155 / 1125899906842624)" .
  have "Number ''1.000001'' = round_double (1000001 / 1000000)"
    by (simp add: Number_defs)
  also have "\<dots> = Num (4503604130970123 / 4503599627370496)"
    using round_double_cert [where q = "1000001 / 1000000" and e = 0 and n = 4503604130970123]
    by simp
  finally have a1: "Number ''1.000001'' = Num (4503604130970123 / 4503599627370496)" .
  have b: "Number ''2'' = Num 2" "Number ''1'' = Num 1"
    using round_double_of_int [of 2] round_double_of_int [of 1]
    by (simp_all add: Number_defs)
  have d2: "round_double (1125899907 / 1125899906842624) = Num (1125899907 / 1125899906842624)"
    using round_double_exact [where q = "1125899907 / 1125899906842624" and m = 1125899907
        and j = "- 50"]
    by simp
  have d1: "round_double (4503599627 / 4503599627370496) = Num (4503599627 / 4503599627370496)"
    using round_double_exact [where q = "4503599627 / 4503599627370496" and m = 4503599627
        and j = "- 52"]
    by simp
  show "\<not> isCorrect ''2.000001'' ''2''"
    by (simp add: isCorrect_def t a2 b d2 epsilon_value)
  show "isCorrect ''1.000001'' ''1''"
    by (simp add: isCorrect_def t a1 b d1 epsilon_value)
qed

text \<open>
  C2.  The empty input and the input of three spaces are read as the number 0 and match
  the answer \<open>0\<close>: \<open>Number("")\<close> is 0, not NaN, so the numeric comparison is taken.
\<close>

theorem isCorrect_blank_input_matches_zero:
  "isCorrect '''' ''0'' \<and> isCorrect ''   '' ''0''"
  by (simp add: isCorrect_def Number_blank epsilon_value)

text \<open>So does every input made of white space only.\<close>

lemma trim_blank:
  assumes "list_all is_white_space s"
  shows "trim s = []"
proof -
  from assms have "dropWhile is_white_space s = []" by (induction s) simp_all
  then show ?thesis by (simp only: trim_def rev.simps dropWhile.simps)
qed

lemma isCorrect_blank_general: "list_all is_white_space s \<Longrightarrow> isCorrect s ''0''"
  by (simp add: isCorrect_def trim_blank Number_blank epsilon_value)

section \<open>Sets built from arrays\<close>

lemma set_Set_add: "set (Set_add x s) = insert x (set s)"
  by (auto simp: Set_add_def)

lemma distinct_Set_add: "distinct s \<Longrightarrow> distinct (Set_add x s)"
  by (simp add: Set_add_def)

lemma fold_Set_add:
  "set (fold Set_add xs acc) = set xs \<union> set acc \<and>
   (distinct acc \<longrightarrow> distinct (fold Set_add xs acc))"
  by (induction xs arbitrary: acc) (auto simp: set_Set_add distinct_Set_add)

lemma set_new_Set: "set (new_Set xs) = set xs"
  by (simp add: new_Set_def fold_Set_add)

lemma distinct_new_Set: "distinct (new_Set xs)"
  by (simp add: new_Set_def fold_Set_add)

lemma length_new_Set: "length (new_Set xs) = card (set xs)"
  by (metis distinct_card distinct_new_Set set_new_Set)

section \<open>The scene map\<close>

lemma sceneMap_snoc: "sceneMap (scenes @ [x]) = (sceneMap scenes)(scene_id x \<mapsto> x)"
  by (simp add: sceneMap_def fromEntries_def)

lemma sceneMap_lookup:
  "sceneMap scenes i =
     (if i \<in> scene_id ` set scenes
      then Some (last (filter (\<lambda>s. scene_id s = i) scenes)) else None)"
proof (induction scenes rule: rev_induct)
  case Nil
  show ?case by (simp add: sceneMap_def fromEntries_def)
next
  case (snoc x xs)
  show ?case by (auto simp: sceneMap_snoc snoc.IH)
qed

text \<open>
  C8, as amended.  When several scenes of the chapter have the same id, looking the id up
  in the scene map gives the last of them in the list: a later entry replaces an earlier
  one.
\<close>

theorem sceneMap_last_match_wins:
  "i \<in> scene_id ` set scenes \<Longrightarrow>
   get_property (sceneMap scenes) i = Own (last (filter (\<lambda>s. scene_id s = i) scenes))"
  by (simp add: get_property_def sceneMap_lookup)

theorem sceneMap_last_match_wins_witness:
  "''a'' \<in> scene_id ` set [plain_scene ''a'' ''first'', plain_scene ''b'' ''other'',
                            plain_scene ''a'' ''second''] \<and>
   get_property (sceneMap [plain_scene ''a'' ''first'', plain_scene ''b'' ''other'',
                           plain_scene ''a'' ''second'']) ''a''
     = Own (plain_scene ''a'' ''second'')"
  using sceneMap_last_match_wins
    [of "''a''" "[plain_scene ''a'' ''first'', plain_scene ''b'' ''other'',
                  plain_scene ''a'' ''second'']"]
  by (simp add: plain_scene_def)

text \<open>
  C8 as stated fails: with two scenes of id \<open>a\<close>, the lookup does not give the first.
\<close>

theorem sceneMap_first_match_loses:
  "get_property (sceneMap [plain_scene ''a'' ''first'', plain_scene ''a'' ''second'']) ''a''
     \<noteq> Own (plain_scene ''a'' ''first'')"
  by (simp add: get_property_def sceneMap_def fromEntries_def plain_scene_def)

section \<open>Transitions of the game state\<close>

lemma goTo_terminal:
  "goTo scenes ''chapter_end'' s =
     s\<lparr>current := ''chapter_end'', complete := True, history := history s @ [''chapter_end'']\<rparr>"
  by (simp add: goTo_def)

lemma goTo_known:
  "i \<noteq> ''chapter_end'' \<Longrightarrow> i \<in> scene_id ` set scenes \<Longrightarrow>
   goTo scenes i s = s\<lparr>current := i, history := history s @ [i]\<rparr>"
  by (simp add: goTo_def get_property_def sceneMap_lookup)

lemma goTo_unknown:
  "i \<noteq> ''chapter_end'' \<Longrightarrow> i \<notin> scene_id ` set scenes \<Longrightarrow>
   i \<notin> set object_prototype_keys \<Longrightarrow> goTo scenes i s = s"
  by (simp add: goTo_def get_property_def sceneMap_lookup)

lemma goTo_inherited:
  "i \<noteq> ''chapter_end'' \<Longrightarrow> i \<notin> scene_id ` set scenes \<Longrightarrow>
   i \<in> set object_prototype_keys \<Longrightarrow>
   goTo scenes i s = s\<lparr>current := i, history := history s @ [i]\<rparr>"
  by (simp add: goTo_def get_property_def sceneMap_lookup)

text \<open>
  C5.  The id \<open>toString\<close> is neither the terminal marker nor the id of a scene of the
  chapter, and \<open>goTo\<close> is not a no-op on it: \<open>sceneMap["toString"]\<close> is the method
  inherited from \<open>Object.prototype\<close>, which is truthy, so the guard does not return and
  the state moves to \<open>toString\<close>.
\<close>

theorem goTo_toString_moves:
  "goTo [plain_scene ''s1'' ''Start'', plain_scene ''s2'' ''Next''] ''toString'' start_state
     = \<lparr>current = ''toString'', flags = [''a''], history = [''s1'', ''toString''],
        complete = False\<rparr>"
  by (simp add: goTo_def get_property_def sceneMap_def fromEntries_def plain_scene_def
      object_prototype_keys_def start_state_def)

text \<open>
  C6.  \<open>onSolve\<close> leaves in \<open>flags\<close> the union of the old flags and the outcome's flags,
  without duplicates, and moves as \<open>goTo\<close> does on the outcome's \<open>next\<close>: the position, the
  history and the completion are those of \<open>goTo\<close> on the old state, and \<open>goTo\<close> does
  not touch the flags.
\<close>

theorem onSolve_merges_flags_then_goTo:
  "set (flags (onSolve scenes r s)) = set (flags s) \<union> set (res_flags r) \<and>
   distinct (flags (onSolve scenes r s)) \<and>
   flags (onSolve scenes r s) = new_Set (flags s @ res_flags r) \<and>
   current (onSolve scenes r s) = current (goTo scenes (res_next r) s) \<and>
   history (onSolve scenes r s) = history (goTo scenes (res_next r) s) \<and>
   complete (onSolve scenes r s) = complete (goTo scenes (res_next r) s) \<and>
   flags (goTo scenes (res_next r) s) = flags s"
  by (simp add: onSolve_def goTo_def set_new_Set distinct_new_Set)

lemma onSolve_example:
  "onSolve [plain_scene ''s1'' ''Start'', plain_scene ''s2'' ''Next'']
     \<lparr>res_ok = False, res_next = ''s2'', res_flags = [''failed_puzzle'']\<rparr> start_state
   = \<lparr>current = ''s2'', flags = [''a'', ''failed_puzzle''], history = [''s1'', ''s2''],
      complete = False\<rparr>"
  by (simp add: onSolve_def goTo_def get_property_def sceneMap_def fromEntries_def
      plain_scene_def start_state_def new_Set_def Set_add_def)

section \<open>The flags of a puzzle outcome\<close>

text \<open>
  C7.  The scene \<open>door_scene\<close> has the explicit flags \<open>door_open\<close> and a puzzle that the
  registry does not handle.  On the wrong answer \<open>red\<close> the generic path of SceneView
  delivers \<open>failed_puzzle\<close>, not the explicit flags; the single-file version of the same
  handler delivers the explicit flags.
\<close>

theorem handleSubmit_failure_drops_flags_set:
  "flags_set door_scene = Some [''door_open''] \<and> \<not> registry_dispatch door_scene \<and>
   handleSubmit door_scene ''red'' =
     Some \<lparr>res_ok = False, res_next = ''s_fail'', res_flags = [''failed_puzzle'']\<rparr> \<and>
   handleSubmit_single_file door_scene ''red'' =
     Some \<lparr>res_ok = False, res_next = ''s_fail'', res_flags = [''door_open'']\<rparr>"
  by (simp add: handleSubmit_def handleSubmit_single_file_def door_scene_def colour_puzzle_def
      registry_dispatch_def puzzleRegistry_def fromEntries_def get_property_def
      object_prototype_keys_def isCorrect_def Number_words toLowerCase_def lower_char_def)

text \<open>The flags on each path: the registry path and the single-file handler follow the
  policy of the specification; the generic path of SceneView does so on success only.\<close>

lemma registry_onSolve_flags:
  "puzzle scene = Some p \<Longrightarrow>
   registry_onSolve scene ok = Some r \<Longrightarrow>
   res_flags r = (case flags_set scene of Some fs \<Rightarrow> fs
                  | None \<Rightarrow> if ok then [''solved_puzzle''] else [''failed_puzzle''])"
  by (auto simp: registry_onSolve_def split: option.splits)

lemma handleSubmit_single_file_flags:
  "handleSubmit_single_file scene input = Some r \<Longrightarrow>
   res_flags r = (case flags_set scene of Some fs \<Rightarrow> fs
                  | None \<Rightarrow> if res_ok r then [''solved_puzzle''] else [''failed_puzzle''])"
  by (auto simp: handleSubmit_single_file_def Let_def split: option.splits if_splits)

lemma handleSubmit_flags:
  "handleSubmit scene input = Some r \<Longrightarrow>
   res_flags r = (if res_ok r then (case flags_set scene of Some fs \<Rightarrow> fs | None \<Rightarrow> [''solved_puzzle''])
                  else [''failed_puzzle''])"
  by (auto simp: handleSubmit_def Let_def split: option.splits if_splits)

section \<open>The progress percentage\<close>

lemma progress_by_counts:
  "progress hist scenes =
     Math_min (Num 100)
       (Math_round (num_mul (num_div (number_of_nat (card (set hist)))
          (num_add (number_of_nat (length scenes)) (Num 1))) (Num 100)))"
  by (simp add: progress_def length_new_Set)

lemma number_of_small_nat: "n < 2 ^ 53 \<Longrightarrow> number_of_nat n = Num (of_nat n)"
  using round_double_of_int [of "int n"] by (simp add: number_of_nat_def)

lemma progress_23_of_40:
  assumes "card (set hist) = 23" and "length scenes = 39"
  shows "progress hist scenes = Num 57"
proof -
  have a: "round_double 40 = Num 40"
    using round_double_of_int [of 40] by simp
  have d: "round_double (23 / 40) = Num (2589569785738035 / 4503599627370496)"
    using round_double_cert [where q = "23/40" and e = "-1" and n = 5179139571476070]
    by simp
  have m: "round_double (64739244643450875 / 1125899906842624)
      = Num (8092405580431359 / 140737488355328)"
    using round_double_cert [where q = "64739244643450875 / 1125899906842624" and e = 5
        and n = 8092405580431359]
    by simp
  have r: "round (8092405580431359 / 140737488355328 :: rat) = 57"
    by (rule round_unique) simp_all
  show ?thesis
    by (simp add: progress_by_counts assms number_of_small_nat a d m r)
qed

lemma progress_2_of_5:
  assumes "card (set hist) = 2" and "length scenes = 4"
  shows "progress hist scenes = Num 40"
proof -
  have a: "round_double 5 = Num 5"
    using round_double_of_int [of 5] by simp
  have d: "round_double (2 / 5) = Num (3602879701896397 / 9007199254740992)"
    using round_double_cert [where q = "2/5" and e = "-2" and n = 7205759403792794]
    by simp
  have m: "round_double (90071992547409925 / 2251799813685248) = Num 40"
    using round_double_cert [where q = "90071992547409925 / 2251799813685248" and e = 5
        and n = 5629499534213120]
    by simp
  show ?thesis
    by (simp add: progress_by_counts assms number_of_small_nat a d m)
qed

text \<open>
  C9.  With 23 distinct scenes visited in a chapter of 39 scenes the exact value is
  \<open>100 * 23 / 40 = 57.5\<close>, which rounds to 58.  The source divides first: \<open>23 / 40\<close>
  is rounded to a binary64 value just below 0.575, the product with 100 is rounded to
  57.49999999999999, and \<open>Math.round\<close> gives 57.
\<close>

theorem progress_misses_tie:
  "card (set visited_23) = 23 \<and> length chapter_39 = 39 \<and>
   progress visited_23 chapter_39 = Num 57 \<and>
   min 100 (round (100 * 23 / (39 + 1) :: rat)) = 58"
proof -
  have c: "card (set visited_23) = 23"
    by (simp add: visited_23_def)
  have l: "length chapter_39 = 39"
    by (simp add: chapter_39_def visited_23_def)
  have "round (100 * 23 / (39 + 1) :: rat) = 58"
    by (rule round_unique) simp_all
  with c l progress_23_of_40 [OF c l] show ?thesis by simp
qed

text \<open>The example of the specification.\<close>

lemma progress_example:
  "progress [''s1'', ''s2'', ''s1'']
     [plain_scene ''s1'' ''A'', plain_scene ''s2'' ''B'', plain_scene ''s3'' ''C'',
      plain_scene ''s4'' ''D''] = Num 40"
  by (rule progress_2_of_5) (simp_all add: card_insert_if)

section \<open>The harmonic puzzle: the fundamental\<close>

lemma not_num_lt_of_num_le:
  assumes "num_le (Num a) x" and "b \<le> a"
  shows "\<not> num_lt x (Num b)"
  using assms by (cases x) auto

text \<open>A binary64 value between 1/4 and 1/2 is a multiple of 2^-54.\<close>

lemma double_quarter_to_half:
  assumes "is_double g" and "1/4 \<le> g" and "g < 1/2"
  obtains k where "g = of_int k / 2 ^ 54" and "2 ^ 52 \<le> k" and "k < 2 ^ 53"
proof -
  define k where "k = round_ties_even (g / 2 powi (- 2 - 52))"
  have n: "round_double g =
     (let r = of_int (round_ties_even (g / 2 powi (- 2 - 52))) * 2 powi (- 2 - 52)
      in if 2 powi 1024 \<le> \<bar>r\<bar> then (if 0 < g then PosInfinity else NegInfinity) else Num r)"
    using assms(2,3) by (intro round_double_normal) simp_all
  from assms(1) have "round_double g = Num g" by (simp add: is_double_def)
  with n have "Num g = Num (of_int k * 2 powi (- 2 - 52))"
    by (simp add: Let_def k_def split: if_splits)
  then have g: "g = of_int k / 2 ^ 54" by (simp add: power_int_minus field_simps)
  from assms(2) g have "(of_int (2 ^ 52) :: rat) \<le> of_int k" by (simp add: field_simps)
  then have 1: "2 ^ 52 \<le> k" by (simp only: of_int_le_iff)
  from assms(3) g have "(of_int k :: rat) < of_int (2 ^ 53)" by (simp add: field_simps)
  then have 2: "k < 2 ^ 53" by (simp only: of_int_less_iff)
  from g 1 2 show thesis by (rule that)
qed

lemma near_middle:
  assumes "is_double g" and "1/4 \<le> g" and "g < 1/2"
  shows "num_lt (Math_abs (num_sub (Num g) f0)) tolerance \<longleftrightarrow> \<bar>g - 3/10\<bar> < 2/100"
proof -
  from assms obtain k where g: "g = of_int k / 2 ^ 54" and k: "2 ^ 52 \<le> k" "k < 2 ^ 53"
    by (rule double_quarter_to_half)
  define m where "m = k - 5404319552844595"
  have d: "g - 5404319552844595 / 18014398509481984 = of_int m * 2 powi (- 54)"
    by (simp add: g m_def power_int_minus field_simps)
  have m: "\<bar>m\<bar> < 2 ^ 53" using k by (simp add: m_def)
  have "\<bar>of_int m * (2::rat) powi (- 54)\<bar> < 2 powi 1024"
  proof -
    from m have "(of_int \<bar>m\<bar> :: rat) < of_int (2 ^ 53)" by (simp only: of_int_less_iff)
    then show ?thesis by (simp add: abs_mult power_int_minus field_simps del: of_int_abs)
  qed
  with d m have "round_double (g - 5404319552844595 / 18014398509481984)
      = Num (g - 5404319552844595 / 18014398509481984)"
    by (intro round_double_exact [where m = m and j = "- 54"]) simp_all
  then have code: "num_lt (Math_abs (num_sub (Num g) f0)) tolerance \<longleftrightarrow>
      \<bar>g - 5404319552844595 / 18014398509481984\<bar> < 5764607523034235 / 288230376151711744"
    by (simp add: f0_value tolerance_value)
  have dich: "k \<le> 5044031582654955 \<or> 5044031582654956 \<le> k"
    "k \<le> 5764607523034234 \<or> 5764607523034235 \<le> k" by linarith+
  then have dich': "(of_int k :: rat) \<le> 5044031582654955 \<or> 5044031582654956 \<le> (of_int k :: rat)"
    "(of_int k :: rat) \<le> 5764607523034234 \<or> 5764607523034235 \<le> (of_int k :: rat)"
    by (metis of_int_le_iff of_int_numeral)+
  define x :: rat where "x = of_int k"
  have gx: "g = x / 2 ^ 54" by (simp add: g x_def)
  have c1: "g - 5404319552844595 / 18014398509481984 < 5764607523034235 / 288230376151711744
      \<longleftrightarrow> 16 * x < 92233720368547755"
    by (simp add: gx field_simps)
  have c2: "- (g - 5404319552844595 / 18014398509481984) < 5764607523034235 / 288230376151711744
      \<longleftrightarrow> 80704505322479285 < 16 * x"
    by (simp add: gx field_simps)
  have e1: "g - 3/10 < 2/100 \<longleftrightarrow> 50 * x < 288230376151711744"
    by (simp add: gx field_simps)
  have e2: "- (g - 3/10) < 2/100 \<longleftrightarrow> 252201579132747776 < 50 * x"
    by (simp add: gx field_simps)
  have "\<bar>g - 5404319552844595 / 18014398509481984\<bar> < 5764607523034235 / 288230376151711744
      \<longleftrightarrow> 5044031582654956 \<le> x \<and> x \<le> 5764607523034234"
    unfolding abs_less_iff c1 c2 using dich' [folded x_def] by auto
  moreover have "\<bar>g - 3/10\<bar> < 2/100
      \<longleftrightarrow> 5044031582654956 \<le> x \<and> x \<le> 5764607523034234"
    unfolding abs_less_iff e1 e2 using dich' [folded x_def] by auto
  ultimately show ?thesis using code by simp
qed

lemma near_high:
  assumes "1/2 \<le> g"
  shows "\<not> num_lt (Math_abs (num_sub (Num g) f0)) tolerance" and "\<not> \<bar>g - 3/10\<bar> < 2/100"
proof -
  have "2 powi (- 3) \<le> \<bar>g - 5404319552844595 / 18014398509481984\<bar>"
    using assms by (simp add: power_int_minus)
  then have "num_le (Num (2 powi (- 3)))
      (Math_abs (round_double (g - 5404319552844595 / 18014398509481984)))"
    by (rule round_double_abs_ge) simp
  then show "\<not> num_lt (Math_abs (num_sub (Num g) f0)) tolerance"
    unfolding f0_value tolerance_value num_sub.simps
    by (rule not_num_lt_of_num_le) (simp add: power_int_minus)
  show "\<not> \<bar>g - 3/10\<bar> < 2/100" using assms by simp
qed

lemma near_low:
  assumes "g < 1/4"
  shows "\<not> num_lt (Math_abs (num_sub (Num g) f0)) tolerance" and "\<not> \<bar>g - 3/10\<bar> < 2/100"
proof -
  have "2 powi (- 5) \<le> \<bar>g - 5404319552844595 / 18014398509481984\<bar>"
    using assms by (simp add: power_int_minus)
  then have "num_le (Num (2 powi (- 5)))
      (Math_abs (round_double (g - 5404319552844595 / 18014398509481984)))"
    by (rule round_double_abs_ge) simp
  then show "\<not> num_lt (Math_abs (num_sub (Num g) f0)) tolerance"
    unfolding f0_value tolerance_value num_sub.simps
    by (rule not_num_lt_of_num_le) (simp add: power_int_minus)
  show "\<not> \<bar>g - 3/10\<bar> < 2/100" using assms by simp
qed

lemma nearCorrect_iff:
  assumes "freqGuess s = Num g" and "is_double g"
  shows "nearCorrect s \<longleftrightarrow> \<bar>g - 3/10\<bar> < 2/100"
proof -
  consider "g < 1/4" | "1/4 \<le> g" "g < 1/2" | "1/2 \<le> g" by linarith
  then show ?thesis
  proof cases
    case 1
    from near_low [OF 1] show ?thesis by (simp add: nearCorrect_def assms(1))
  next
    case 2
    from near_middle [OF assms(2) 2] show ?thesis by (simp add: nearCorrect_def assms(1))
  next
    case 3
    from near_high [OF 3] show ?thesis by (simp add: nearCorrect_def assms(1))
  qed
qed

lemma nearCorrect_not_finite:
  assumes "\<not> isFinite (freqGuess s)"
  shows "\<not> nearCorrect s"
  using assms by (cases "freqGuess s") (simp_all add: nearCorrect_def f0_value tolerance_value)

lemma run_append:
  "run (as @ bs) s = (let (s1, out1) = run as s; (s2, out2) = run bs s1 in (s2, out1 @ out2))"
  by (induction as arbitrary: s) (simp_all add: split_beta Let_def)

lemma checkFundamental_step:
  assumes "is_double g"
  shows "run [SetFreqGuess (Num g), CheckFundamental] s =
     (if \<bar>g - 3/10\<bar> < 2/100
      then (s\<lparr>freqGuess := Num g, feedback := FundamentalFound, stage := Stage2\<rparr>, [])
      else (s\<lparr>freqGuess := Num g, feedback := FundamentalNotQuite\<rparr>, []))"
proof -
  have "nearCorrect (setFreqGuess (Num g) s) \<longleftrightarrow> \<bar>g - 3/10\<bar> < 2/100"
    by (rule nearCorrect_iff [OF _ assms]) (simp add: setFreqGuess_def)
  then show ?thesis
    by (simp add: checkFundamental_def setFreqGuess_def)
qed

lemma failed_attempts:
  assumes "\<forall>h\<in>set gs. is_double h \<and> \<not> \<bar>h - 3/10\<bar> < 2/100"
  shows "\<exists>f fb. run (attempts (map Num gs)) s = (s\<lparr>freqGuess := f, feedback := fb\<rparr>, [])"
  using assms
proof (induction gs arbitrary: s)
  case Nil
  have "s = s\<lparr>freqGuess := freqGuess s, feedback := feedback s\<rparr>" by simp
  then show ?case by (metis attempts_def concat.simps(1) list.simps(8) run.simps(1))
next
  case (Cons h gs)
  from Cons.prems have h: "is_double h" "\<not> \<bar>h - 3/10\<bar> < 2/100" by simp_all
  let ?s1 = "s\<lparr>freqGuess := Num h, feedback := FundamentalNotQuite\<rparr>"
  from Cons.prems have "\<forall>h\<in>set gs. is_double h \<and> \<not> \<bar>h - 3/10\<bar> < 2/100" by simp
  from Cons.IH [OF this, of ?s1] obtain f fb where
    r: "run (attempts (map Num gs)) ?s1 = (?s1\<lparr>freqGuess := f, feedback := fb\<rparr>, [])" by blast
  have "attempts (map Num (h # gs)) = [SetFreqGuess (Num h), CheckFundamental] @ attempts (map Num gs)"
    by (simp add: attempts_def)
  then have "run (attempts (map Num (h # gs))) s = (s\<lparr>freqGuess := f, feedback := fb\<rparr>, [])"
    using checkFundamental_step [OF h(1), of s] h(2) r
    by (simp only: run_append) simp
  then show ?case by blast
qed

lemma number_031: "Number ''0.31'' = Num (5584463537939415 / 18014398509481984)"
proof -
  have "Number ''0.31'' = round_double (31 / 100)"
    by (simp add: Number_def trim_def is_white_space_def parse_non_decimal_def split_sign_def
  parse_unsigned_decimal_def split_fraction_def parse_exponent_def parse_digits_def is_digit_def digit_of_def
  digits_value_def Let_def)
  also have "\<dots> = Num (5584463537939415 / 18014398509481984)"
    using round_double_cert [where q = "31/100" and e = "-2" and n = 5584463537939415]
    by simp
  finally show ?thesis .
qed

lemma is_double_031: "is_double (5584463537939415 / 18014398509481984)"
  unfolding is_double_def
  using round_double_exact [where q = "5584463537939415 / 18014398509481984" and m = 5584463537939415 and j = "-54"]
  by simp

lemma is_double_half: "is_double (1 / 2)"
  unfolding is_double_def
  using round_double_exact [where q = "1/2" and m = 1 and j = "-1"]
  by simp

text \<open>
  C4.  From a state in stage 1, after any number of rejected guesses, checking a guess
  (a binary64 value \<open>g\<close>) moves the puzzle to stage 2 if and only if
  \<open>\<bar>g - 0.3\<bar> < 0.02\<close>, the inequality strict and taken over the rationals.  Otherwise the
  puzzle stays in stage 1 with the failure message.  No outcome is emitted either way, and
  the state keeps no trace of the rejected guesses but the message.
\<close>

theorem checkFundamental_after_failed_attempts:
  assumes "stage s = Stage1"
    and "\<forall>h\<in>set gs. is_double h \<and> \<not> \<bar>h - 3/10\<bar> < 2/100"
    and "is_double g"
  shows "run (attempts (map Num gs) @ [SetFreqGuess (Num g), CheckFundamental]) s =
     (if \<bar>g - 3/10\<bar> < 2/100
      then (s\<lparr>freqGuess := Num g, feedback := FundamentalFound, stage := Stage2\<rparr>, [])
      else (s\<lparr>freqGuess := Num g, feedback := FundamentalNotQuite\<rparr>, [])) \<and>
   stage (fst (run (attempts (map Num gs) @ [SetFreqGuess (Num g), CheckFundamental]) s)) =
     (if \<bar>g - 3/10\<bar> < 2/100 then Stage2 else Stage1)"
proof -
  from failed_attempts [OF assms(2), of s] obtain f fb where
    r: "run (attempts (map Num gs)) s = (s\<lparr>freqGuess := f, feedback := fb\<rparr>, [])" by blast
  have 1: "run (attempts (map Num gs) @ [SetFreqGuess (Num g), CheckFundamental]) s =
     (if \<bar>g - 3/10\<bar> < 2/100
      then (s\<lparr>freqGuess := Num g, feedback := FundamentalFound, stage := Stage2\<rparr>, [])
      else (s\<lparr>freqGuess := Num g, feedback := FundamentalNotQuite\<rparr>, []))"
    using checkFundamental_step [OF assms(3), of "s\<lparr>freqGuess := f, feedback := fb\<rparr>"] r
    by (simp only: run_append) simp
  then show ?thesis by (simp add: assms(1))
qed

theorem checkFundamental_after_failed_attempts_witness:
  "stage initial = Stage1 \<and> is_double (1 / 2) \<and> \<not> \<bar>1 / 2 - 3 / 10 :: rat\<bar> < 2 / 100 \<and>
   is_double (5584463537939415 / 18014398509481984) \<and>
   \<bar>5584463537939415 / 18014398509481984 - 3 / 10 :: rat\<bar> < 2 / 100 \<and>
   run (attempts [Num (1 / 2)] @ [SetFreqGuess (Number ''0.31''), CheckFundamental]) initial
     = (\<lparr>stage = Stage2, freqGuess = Number ''0.31'', feedback = FundamentalFound,
         selected = []\<rparr>, [])"
  using checkFundamental_after_failed_attempts
    [of initial "[1 / 2]" "5584463537939415 / 18014398509481984"]
    is_double_half is_double_031
  by (simp add: number_031 initial_def)

text \<open>
  The examples: 0.31 is accepted; 0.5, the initial position of the slider, is not.  The
  slider's 0.28 and 0.32 are read as the binary64 values nearest to them, the first just
  above 0.28 and accepted, the second just above 0.32 and rejected.
\<close>

lemma number_slider:
  "Number ''0.5'' = Num (1 / 2)"
  "Number ''0.28'' = Num (5044031582654956 / 18014398509481984)"
  "Number ''0.32'' = Num (5764607523034235 / 18014398509481984)"
proof -
  have "Number ''0.5'' = round_double (5 / 10)" "Number ''0.28'' = round_double (28 / 100)"
    "Number ''0.32'' = round_double (32 / 100)"
    by (simp_all add: Number_defs)
  moreover have "round_double (5 / 10) = Num (1 / 2)"
    using round_double_exact [where q = "1/2" and m = 1 and j = "-1"] by simp
  moreover have "round_double (28 / 100) = Num (5044031582654956 / 18014398509481984)"
    using round_double_cert [where q = "28/100" and e = "-2" and n = 5044031582654956]
    by simp
  moreover have "round_double (32 / 100) = Num (5764607523034235 / 18014398509481984)"
    using round_double_cert [where q = "32/100" and e = "-2" and n = 5764607523034235]
    by simp
  ultimately show "Number ''0.5'' = Num (1 / 2)"
    "Number ''0.28'' = Num (5044031582654956 / 18014398509481984)"
    "Number ''0.32'' = Num (5764607523034235 / 18014398509481984)"
    by simp_all
qed

lemma is_double_slider:
  "is_double (5044031582654956 / 18014398509481984)"
  "is_double (5764607523034235 / 18014398509481984)"
  unfolding is_double_def
  using round_double_exact [where q = "5044031582654956 / 18014398509481984"
      and m = 5044031582654956 and j = "-54"]
    round_double_exact [where q = "5764607523034235 / 18014398509481984"
      and m = 5764607523034235 and j = "-54"]
  by simp_all

lemma nearCorrect_values:
  "freqGuess s = Num (5584463537939415 / 18014398509481984) \<Longrightarrow> nearCorrect s"
  "freqGuess s = Num (5044031582654956 / 18014398509481984) \<Longrightarrow> nearCorrect s"
  "freqGuess s = Num (5764607523034235 / 18014398509481984) \<Longrightarrow> \<not> nearCorrect s"
  "freqGuess s = Num (1 / 2) \<Longrightarrow> \<not> nearCorrect s"
  using nearCorrect_iff [OF _ is_double_031, of s] nearCorrect_iff [OF _ is_double_slider(1), of s]
    nearCorrect_iff [OF _ is_double_slider(2), of s] nearCorrect_iff [OF _ is_double_half, of s]
  by simp_all

lemma checkFundamental_examples:
  "stage (fst (run [SetFreqGuess (Number ''0.31''), CheckFundamental] initial)) = Stage2"
  "stage (fst (run [SetFreqGuess (Number ''0.5''), CheckFundamental] initial)) = Stage1"
  "stage (fst (run [CheckFundamental] initial)) = Stage1"
  "stage (fst (run [SetFreqGuess (Number ''0.28''), CheckFundamental] initial)) = Stage2"
  "stage (fst (run [SetFreqGuess (Number ''0.32''), CheckFundamental] initial)) = Stage1"
proof -
  have h: "round_double (1 / 2) = Num (1 / 2)"
    using is_double_half by (simp add: is_double_def)
  show "stage (fst (run [SetFreqGuess (Number ''0.31''), CheckFundamental] initial)) = Stage2"
    by (simp add: number_031 checkFundamental_def setFreqGuess_def nearCorrect_values)
  show "stage (fst (run [SetFreqGuess (Number ''0.5''), CheckFundamental] initial)) = Stage1"
    by (simp add: number_slider checkFundamental_def setFreqGuess_def nearCorrect_values
        initial_def)
  show "stage (fst (run [CheckFundamental] initial)) = Stage1"
    by (simp add: checkFundamental_def nearCorrect_values initial_def h)
  show "stage (fst (run [SetFreqGuess (Number ''0.28''), CheckFundamental] initial)) = Stage2"
    by (simp add: number_slider checkFundamental_def setFreqGuess_def nearCorrect_values)
  show "stage (fst (run [SetFreqGuess (Number ''0.32''), CheckFundamental] initial)) = Stage1"
    by (simp add: number_slider checkFundamental_def setFreqGuess_def nearCorrect_values
        initial_def)
qed

section \<open>The harmonic puzzle: the selection\<close>

lemma distinct_toggleHarmonic:
  "distinct (selected s) \<Longrightarrow> distinct (selected (toggleHarmonic n s))"
  by (simp add: toggleHarmonic_def)

lemma distinct_act: "distinct (selected s) \<Longrightarrow> distinct (selected (fst (act a s)))"
  by (cases a)
    (simp_all add: distinct_toggleHarmonic setFreqGuess_def checkFundamental_def
      checkHarmonics_def resetPuzzle_def)

lemma distinct_run: "distinct (selected s) \<Longrightarrow> distinct (selected (fst (run as s)))"
proof (induction as arbitrary: s)
  case Nil
  then show ?case by simp
next
  case (Cons a as)
  from Cons.IH [OF distinct_act [OF Cons.prems, of a]]
  show ?case by (simp add: split_beta)
qed

lemma distinct_reachable: "distinct (selected (fst (run as initial)))"
  by (rule distinct_run) (simp add: initial_def)

lemma harmonics_ok_distinct:
  assumes "distinct sel"
  shows "harmonics_ok sel \<longleftrightarrow> set sel = {1, 3, 5}"
proof
  assume ok: "harmonics_ok sel"
  then have sub: "set sel \<subseteq> {1, 3, 5}" and len: "length sel = 3"
    by (auto simp: harmonics_ok_def correctSet_def list_all_iff)
  from assms len have "card (set sel) = 3" by (simp add: distinct_card)
  with sub show "set sel = {1, 3, 5}"
    by (intro card_subset_eq) auto
next
  assume eq: "set sel = {1, 3, 5}"
  from assms have "length sel = card (set sel)" by (simp add: distinct_card)
  with eq have "length sel = 3" by simp
  with eq show "harmonics_ok sel"
    by (auto simp: harmonics_ok_def correctSet_def list_all_iff)
qed

text \<open>Without the invariant the test is not one of set equality.\<close>

lemma harmonics_ok_with_duplicates: "harmonics_ok [1, 1, 3] \<and> 5 \<notin> set [1, 1, 3 :: int]"
  by (simp add: harmonics_ok_def correctSet_def)

lemma toggleHarmonic_twice_set:
  "set (selected (toggleHarmonic n (toggleHarmonic n s))) = set (selected s)"
  by (auto simp: toggleHarmonic_def)

lemma toggleHarmonic_twice_absent:
  assumes "n \<notin> set (selected s)"
  shows "toggleHarmonic n (toggleHarmonic n s) = s"
proof -
  from assms have "filter (\<lambda>x. x \<noteq> n) (selected s) = selected s"
    by (intro filter_True) auto
  with assms show ?thesis by (simp add: toggleHarmonic_def)
qed

lemma toggleHarmonic_twice_present:
  "n \<in> set (selected s) \<Longrightarrow>
   selected (toggleHarmonic n (toggleHarmonic n s)) = filter (\<lambda>x. x \<noteq> n) (selected s) @ [n]"
  by (simp add: toggleHarmonic_def)

text \<open>
  C3.  In every state the puzzle can reach from its initial state, by any actions, a
  submission emits exactly one outcome, and it is success if and only if the selection has
  exactly the members 1, 3 and 5.
\<close>

theorem checkHarmonics_success_iff_exact_set:
  "(snd (checkHarmonics (fst (run acts initial))) = [True]
      \<longleftrightarrow> set (selected (fst (run acts initial))) = {1, 3, 5}) \<and>
   (snd (checkHarmonics (fst (run acts initial))) = [False]
      \<longleftrightarrow> set (selected (fst (run acts initial))) \<noteq> {1, 3, 5})"
  using harmonics_ok_distinct [OF distinct_reachable [of acts]]
  by (simp add: checkHarmonics_def)

lemma checkHarmonics_examples:
  "snd (run [ToggleHarmonic 1, ToggleHarmonic 3, ToggleHarmonic 5, CheckHarmonics] initial)
     = [True] \<and>
   snd (run [ToggleHarmonic 5, ToggleHarmonic 1, ToggleHarmonic 3, CheckHarmonics] initial)
     = [True] \<and>
   snd (run [ToggleHarmonic 1, ToggleHarmonic 3, CheckHarmonics] initial) = [False] \<and>
   snd (run [ToggleHarmonic 1, ToggleHarmonic 3, ToggleHarmonic 5, ToggleHarmonic 2,
             CheckHarmonics] initial) = [False]"
  by (simp add: toggleHarmonic_def initial_def checkHarmonics_def harmonics_ok_def
      correctSet_def)

text \<open>
  C10, as amended.  In every state reached from the initial state the selection has no
  duplicates.  Toggling a multiplier twice gives a selection with the same members and no
  duplicates: the same list when the multiplier was not selected, and the list with the
  multiplier moved to the end when it was.  On such a selection the test of
  \<open>checkHarmonics\<close> is equality with the set of 1, 3 and 5.
\<close>

theorem toggleHarmonic_invariant_and_double_toggle:
  "distinct (selected (fst (run acts initial))) \<and>
   set (selected (toggleHarmonic n (toggleHarmonic n (fst (run acts initial)))))
     = set (selected (fst (run acts initial))) \<and>
   distinct (selected (toggleHarmonic n (toggleHarmonic n (fst (run acts initial))))) \<and>
   (n \<notin> set (selected (fst (run acts initial))) \<longrightarrow>
      toggleHarmonic n (toggleHarmonic n (fst (run acts initial))) = fst (run acts initial)) \<and>
   (n \<in> set (selected (fst (run acts initial))) \<longrightarrow>
      selected (toggleHarmonic n (toggleHarmonic n (fst (run acts initial))))
        = filter (\<lambda>x. x \<noteq> n) (selected (fst (run acts initial))) @ [n]) \<and>
   (harmonics_ok (selected (fst (run acts initial)))
      \<longleftrightarrow> set (selected (fst (run acts initial))) = {1, 3, 5})"
proof -
  let ?s = "fst (run acts initial)"
  have d: "distinct (selected ?s)"
    by (rule distinct_reachable)
  have d2: "distinct (selected (toggleHarmonic n (toggleHarmonic n ?s)))"
    by (intro distinct_toggleHarmonic d)
  have a: "n \<notin> set (selected ?s) \<longrightarrow> toggleHarmonic n (toggleHarmonic n ?s) = ?s"
    using toggleHarmonic_twice_absent [of n ?s] by blast
  have p: "n \<in> set (selected ?s) \<longrightarrow>
      selected (toggleHarmonic n (toggleHarmonic n ?s)) = filter (\<lambda>x. x \<noteq> n) (selected ?s) @ [n]"
    using toggleHarmonic_twice_present [of n ?s] by blast
  from d d2 a p toggleHarmonic_twice_set [of n ?s] harmonics_ok_distinct [OF d]
  show ?thesis by blast
qed

theorem toggleHarmonic_invariant_and_double_toggle_witness:
  "(2 \<notin> set (selected (fst (run [ToggleHarmonic 1, ToggleHarmonic 3] initial))) \<and>
    toggleHarmonic 2 (toggleHarmonic 2 (fst (run [ToggleHarmonic 1, ToggleHarmonic 3] initial)))
      = fst (run [ToggleHarmonic 1, ToggleHarmonic 3] initial)) \<and>
   (3 \<in> set (selected (fst (run [ToggleHarmonic 3, ToggleHarmonic 1] initial))) \<and>
    selected (toggleHarmonic 3
               (toggleHarmonic 3 (fst (run [ToggleHarmonic 3, ToggleHarmonic 1] initial))))
      = [1, 3])"
  using toggleHarmonic_invariant_and_double_toggle [of "[ToggleHarmonic 1, ToggleHarmonic 3]" 2]
    toggleHarmonic_invariant_and_double_toggle [of "[ToggleHarmonic 3, ToggleHarmonic 1]" 3]
  by (simp add: toggleHarmonic_def initial_def)

text \<open>
  C10 as stated fails: from the selection \<open>[1, 3]\<close>, toggling 1 twice gives \<open>[3, 1]\<close>, not
  the previous value.
\<close>

theorem toggleHarmonic_twice_reorders:
  "selected (fst (run [ToggleHarmonic 1, ToggleHarmonic 3] initial)) = [1, 3] \<and>
   selected (toggleHarmonic 1
              (toggleHarmonic 1 (fst (run [ToggleHarmonic 1, ToggleHarmonic 3] initial))))
     = [3, 1] \<and>
   toggleHarmonic 1 (toggleHarmonic 1 (fst (run [ToggleHarmonic 1, ToggleHarmonic 3] initial)))
     \<noteq> fst (run [ToggleHarmonic 1, ToggleHarmonic 3] initial)"
  by (simp add: toggleHarmonic_def initial_def)

end
